theory Spec2Isabelle
  imports Main "HOL-Library.AList" "HOL-Library.Multiset"
begin

section \<open>The scoreboard of the conference bot\<close>

text \<open>
  A shallow embedding of the class \<open>Scoreboard\<close>: the vote ledger of the auditorium rooms,
  the ranking derived from it, and the snapshot on disk. The objects keyed by room id
  (\<open>byRoom\<close>, \<open>byRoomCached\<close>, the \<open>rooms\<close> of a snapshot) are association lists in
  insertion order, as the properties of a JavaScript object are; arrays are lists; an
  optional property is an \<open>option\<close>.
\<close>

subsection \<open>Data\<close>

record RoomMessage =
  eventId :: string
  msgText :: string
  senderId :: string
  senderName :: "string option"
  senderHttpUrl :: "string option"
  activeUpvoteIds :: "string list"
  activeDownvoteIds :: "string list"

record CachedMessage =
  permalink :: string
  cachedText :: string
  upvotes :: int
  cachedSenderId :: string
  cachedSenderName :: "string option"
  senderAvatarHttpUrl :: "string option"

record RoomScoreboard =
  qaStartTime :: "int option"
  messages :: "RoomMessage list"

record CachedScoreboard =
  cachedQaStartTime :: "int option"
  ordered :: "CachedMessage list"

record ScoreboardJson =
  version :: int
  rooms :: "(string \<times> RoomScoreboard) list"

text \<open>
  What \<open>JSON.parse\<close> returns, as far as \<open>load\<close> reads it. The variable that takes the
  value is declared a \<open>ScoreboardJson\<close>, and nothing checks that at run time. The value can
  be \<open>null\<close>, of which no property can be read. Any other value has a \<open>version\<close> (\<open>None\<close>
  when there is no number under that name) and the properties of its \<open>rooms\<close> in their
  order (none when there is no such object); the value of a room is a scoreboard, or
  (\<open>None\<close>) one on which \<open>calculateRoom\<close> throws: \<open>null\<close>, an object without an array of
  messages, a message without its arrays of votes. Values that are read without a throw
  and are no scoreboards (a message without a text, say) are not in the model.
\<close>

datatype parsed = JsonNull | JsonValue "int option" "(string \<times> RoomScoreboard option) list"

text \<open>
  What the class takes from outside: the conference's auditoriums, the helper
  \<open>isEmojiVariant\<close> of the utilities module, \<open>Permalinks.forEvent\<close> and the homeserver URL
  of the Matrix client, and the runtime's \<open>encodeURIComponent\<close>, \<open>JSON.stringify\<close> and
  \<open>JSON.parse\<close> (\<open>None\<close> is a \<open>SyntaxError\<close>).
\<close>

record env =
  storedAuditoriums :: "string list"
  isEmojiVariant :: "string \<Rightarrow> string option \<Rightarrow> bool"
  forEvent :: "string \<Rightarrow> string \<Rightarrow> string list \<Rightarrow> string"
  homeserverUrl :: string
  encodeURIComponent :: "string \<Rightarrow> string"
  stringify :: "ScoreboardJson \<Rightarrow> string"
  parse :: "string \<Rightarrow> parsed option"

text \<open>Inbound events, as far as the scoreboard reads them.\<close>

record relation =
  rel_type :: "string option"
  key :: "string option"
  rel_event_id :: "string option"

record room_event =
  ev_type :: string
  event_id :: string
  relates_to :: "relation option"
  redacts :: "string option"

record target_event =
  t_type :: string
  t_msgtype :: "string option"
  t_body :: "string option"
  t_sender :: string

record profile =
  displayname :: "string option"
  avatar_url :: "string option"

text \<open>The outcome of an awaited request to the homeserver.\<close>

datatype 'a fetched = Rejected | Resolved 'a

datatype error = TypeError | RequestError | IOError

datatype outcome = Returned | Threw error

datatype io_error = ENOENT | EOTHER

datatype fs_op = WriteFile string string | Rename string string

datatype effect = LockAcquire | LockRelease | LogInfo string | LogWarn string | FileOp fs_op

text \<open>
  The object's fields, the files of the data directory, and the trace of what the object
  did to its lock, to the log and to the files.
\<close>

record Scoreboard =
  path :: string
  byRoom :: "(string \<times> RoomScoreboard) list"
  byRoomCached :: "(string \<times> CachedScoreboard) list"
  domain :: string
  files :: "string \<rightharpoonup> string"
  trace :: "effect list"

definition JSON_FORMAT_VERSION :: int where
  "JSON_FORMAT_VERSION = 1"

definition thumbsUp :: string where
  "thumbsUp = [CHR 0xF0, CHR 0x9F, CHR 0x91, CHR 0x8D]"

definition thumbsDown :: string where
  "thumbsDown = [CHR 0xF0, CHR 0x9F, CHR 0x91, CHR 0x8E]"

definition emptyRoom :: RoomScoreboard where
  "emptyRoom = \<lparr>qaStartTime = None, messages = []\<rparr>"

subsection \<open>Helpers for arrays and effects\<close>

definition emit :: "effect \<Rightarrow> Scoreboard \<Rightarrow> Scoreboard" where
  "emit e st = st\<lparr>trace := trace st @ [e]\<rparr>"

text \<open>\<open>Array.prototype.sort\<close> with a comparator: a stable sort.\<close>

fun insert_by :: "('a \<Rightarrow> 'a \<Rightarrow> int) \<Rightarrow> 'a \<Rightarrow> 'a list \<Rightarrow> 'a list" where
  "insert_by cmp x [] = [x]"
| "insert_by cmp x (y # ys) = (if cmp x y \<le> 0 then x # y # ys else y # insert_by cmp x ys)"

definition array_sort :: "('a \<Rightarrow> 'a \<Rightarrow> int) \<Rightarrow> 'a list \<Rightarrow> 'a list" where
  "array_sort cmp xs = foldr (insert_by cmp) xs []"

text \<open>The element \<open>find\<close> returns, changed in place.\<close>

fun update_first :: "('a \<Rightarrow> bool) \<Rightarrow> ('a \<Rightarrow> 'a) \<Rightarrow> 'a list \<Rightarrow> 'a list" where
  "update_first P f [] = []"
| "update_first P f (x # xs) = (if P x then f x # xs else x # update_first P f xs)"

text \<open>The element \<open>find\<close> returns, spliced out at its index.\<close>

fun remove_first :: "('a \<Rightarrow> bool) \<Rightarrow> 'a list \<Rightarrow> 'a list" where
  "remove_first P [] = []"
| "remove_first P (x # xs) = (if P x then xs else x # remove_first P xs)"

fun split_on :: "char \<Rightarrow> string \<Rightarrow> string list" where
  "split_on c [] = [[]]"
| "split_on c (x # xs) =
     (if x = c then [] # split_on c xs
      else (case split_on c xs of [] \<Rightarrow> [[x]] | p # ps \<Rightarrow> (x # p) # ps))"

definition startsWith :: "string \<Rightarrow> string \<Rightarrow> bool" where
  "startsWith pre s = (take (length pre) s = pre)"

text \<open>
  \<open>this.byRoom[roomId]\<close> after the room has been created on demand, and the creation
  itself: an untracked room gets the empty scoreboard, a tracked one is left alone.
\<close>

definition roomOf :: "Scoreboard \<Rightarrow> string \<Rightarrow> RoomScoreboard" where
  "roomOf st roomId = (case map_of (byRoom st) roomId of None \<Rightarrow> emptyRoom | Some sb \<Rightarrow> sb)"

definition ensureRoom :: "string \<Rightarrow> Scoreboard \<Rightarrow> Scoreboard" where
  "ensureRoom roomId st =
     (case map_of (byRoom st) roomId of
        None \<Rightarrow> st\<lparr>byRoom := AList.update roomId emptyRoom (byRoom st)\<rparr>
      | Some _ \<Rightarrow> st)"

subsection \<open>The ranking\<close>

text \<open>The record \<open>calculateRoom\<close> builds for one tracked message.\<close>

definition displayRecord :: "env \<Rightarrow> string \<Rightarrow> string \<Rightarrow> RoomMessage \<Rightarrow> CachedMessage" where
  "displayRecord env roomId homeDomain message =
     \<lparr>permalink = forEvent env roomId (eventId message) [homeDomain],
      cachedText = msgText message,
      upvotes = int (length (activeUpvoteIds message)) - int (length (activeDownvoteIds message)),
      cachedSenderId = senderId message,
      cachedSenderName = senderName message,
      senderAvatarHttpUrl = senderHttpUrl message\<rparr>"

definition recalculating :: "string \<Rightarrow> effect" where
  "recalculating roomId = LogInfo (''Recalculating scoreboard for '' @ roomId)"

text \<open>The pure part of \<open>calculateRoom\<close>: the view of one room's scoreboard.\<close>

definition rankingView :: "env \<Rightarrow> string \<Rightarrow> string \<Rightarrow> RoomScoreboard \<Rightarrow> CachedScoreboard" where
  "rankingView env roomId homeDomain scoreboard =
     (let msgs = map (displayRecord env roomId homeDomain) (messages scoreboard);
          sorted = array_sort (\<lambda>a b. upvotes b - upvotes a) msgs
      in \<lparr>cachedQaStartTime = qaStartTime scoreboard, ordered = sorted\<rparr>)"

definition calculateRoom :: "env \<Rightarrow> string \<Rightarrow> Scoreboard \<Rightarrow> outcome \<times> Scoreboard" where
  "calculateRoom env roomId st =
     (let st1 = emit (recalculating roomId) st in
      case map_of (byRoom st1) roomId of
        None \<Rightarrow> (Threw TypeError, st1)
      | Some scoreboard \<Rightarrow>
          (Returned,
           st1\<lparr>byRoomCached :=
                 AList.update roomId (rankingView env roomId (domain st1) scoreboard)
                   (byRoomCached st1)\<rparr>))"

definition getScoreboard :: "Scoreboard \<Rightarrow> string \<Rightarrow> CachedScoreboard option" where
  "getScoreboard st roomId = map_of (byRoomCached st) roomId"

subsection \<open>The snapshot on disk\<close>

text \<open>
  The files are a map from paths to contents. A file operation that runs to its end:
  \<open>writeFile\<close> replaces the file's content, \<open>rename\<close> moves a file onto another path in
  one step and fails when there is no file to move. A disk that fails is not in the model.
\<close>

fun fs_apply :: "fs_op \<Rightarrow> (string \<rightharpoonup> string) \<Rightarrow> (string \<rightharpoonup> string) option" where
  "fs_apply (WriteFile p d) fs = Some (fs(p \<mapsto> d))"
| "fs_apply (Rename src dst) fs =
     (case fs src of None \<Rightarrow> None | Some d \<Rightarrow> Some ((fs(src := None))(dst \<mapsto> d)))"

text \<open>
  The files a process that dies inside the operation leaves behind: a write has put down
  a proper prefix of the data, a rename has no state between before and after.
\<close>

fun fs_interrupted :: "fs_op \<Rightarrow> (string \<rightharpoonup> string) \<Rightarrow> (string \<rightharpoonup> string) list" where
  "fs_interrupted (WriteFile p d) fs = map (\<lambda>n. fs(p \<mapsto> take n d)) [0..<length d]"
| "fs_interrupted (Rename src dst) fs = []"

text \<open>Every state of the files in which a run of the operations can be cut off.\<close>

fun fs_crash_states :: "fs_op list \<Rightarrow> (string \<rightharpoonup> string) \<Rightarrow> (string \<rightharpoonup> string) list" where
  "fs_crash_states [] fs = [fs]"
| "fs_crash_states (op # ops) fs =
     fs # fs_interrupted op fs
       @ (case fs_apply op fs of None \<Rightarrow> [] | Some fs' \<Rightarrow> fs_crash_states ops fs')"

definition save_ops :: "env \<Rightarrow> Scoreboard \<Rightarrow> fs_op list" where
  "save_ops env st =
     (let json = \<lparr>version = JSON_FORMAT_VERSION, rooms = byRoom st\<rparr>;
          tempFilePath = path st @ ''.tmp''
      in [WriteFile tempFilePath (stringify env json), Rename tempFilePath (path st)])"

text \<open>The operations run one after the other; the first that fails throws.\<close>

fun fs_exec :: "fs_op list \<Rightarrow> Scoreboard \<Rightarrow> outcome \<times> Scoreboard" where
  "fs_exec [] st = (Returned, st)"
| "fs_exec (op # ops) st =
     (case fs_apply op (files st) of
        None \<Rightarrow> (Threw IOError, st)
      | Some fs' \<Rightarrow> fs_exec ops (emit (FileOp op) (st\<lparr>files := fs'\<rparr>)))"

definition save :: "env \<Rightarrow> Scoreboard \<Rightarrow> outcome \<times> Scoreboard" where
  "save env st =
     (let st1 = emit LockAcquire st in
      case fs_exec (save_ops env st1) st1 of
        (r, st2) \<Rightarrow> (r, emit LockRelease st2))"

text \<open>
  \<open>load\<close> reads the canonical path, parses, checks the version and, under the lock,
  assigns every room of the document and recomputes its view (\<open>loadRooms\<close> is the
  \<open>for ... in\<close> loop). \<open>loadFrom\<close> is the body of \<open>load\<close> for a given outcome of the read,
  so that a read error other than a missing file has its branch. The read and the parse
  are inside the \<open>try\<close>; the version is read after it, so \<open>null\<close> throws a \<open>TypeError\<close>
  there, before the lock is taken. In the loop, a room value that is not a scoreboard is
  assigned like any other, \<open>calculateRoom\<close> logs and then throws a \<open>TypeError\<close> on reading
  its messages, and \<open>finally\<close> releases the lock. The value assigned by then has no place
  in \<open>byRoom\<close>: the state of the model after that throw keeps the room as it was.
\<close>

definition readFile :: "(string \<rightharpoonup> string) \<Rightarrow> string \<Rightarrow> io_error + string" where
  "readFile fs p = (case fs p of None \<Rightarrow> Inl ENOENT | Some d \<Rightarrow> Inr d)"

fun loadRooms :: "env \<Rightarrow> (string \<times> RoomScoreboard option) list \<Rightarrow> Scoreboard \<Rightarrow> outcome \<times> Scoreboard" where
  "loadRooms env [] st = (Returned, st)"
| "loadRooms env ((roomId, None) # rest) st = (Threw TypeError, emit (recalculating roomId) st)"
| "loadRooms env ((roomId, Some room) # rest) st =
     (case calculateRoom env roomId (st\<lparr>byRoom := AList.update roomId room (byRoom st)\<rparr>) of
        (Threw e, st') \<Rightarrow> (Threw e, st')
      | (Returned, st') \<Rightarrow> loadRooms env rest st')"

definition loadFrom :: "env \<Rightarrow> io_error + string \<Rightarrow> Scoreboard \<Rightarrow> outcome \<times> Scoreboard" where
  "loadFrom env rd st =
     (case rd of
        Inl e \<Rightarrow>
          if e = ENOENT then (Returned, st)
          else (Returned, emit (LogWarn ''Cannot load scoreboard:'') st)
      | Inr data \<Rightarrow>
          (case parse env data of
             None \<Rightarrow> (Returned, emit (LogWarn ''Cannot load scoreboard: invalid JSON'') st)
           | Some JsonNull \<Rightarrow> (Threw TypeError, st)
           | Some (JsonValue jsonVersion jsonRooms) \<Rightarrow>
               if jsonVersion \<noteq> Some JSON_FORMAT_VERSION
               then (Returned, emit (LogWarn ''Cannot load scoreboard version'') st)
               else (case loadRooms env jsonRooms (emit LockAcquire st) of
                       (r, st') \<Rightarrow> (r, emit LockRelease st'))))"

definition load :: "env \<Rightarrow> Scoreboard \<Rightarrow> outcome \<times> Scoreboard" where
  "load env st = loadFrom env (readFile (files st) (path st)) st"

subsection \<open>The mutating operations\<close>

text \<open>After the critical section: a throw leaves through \<open>finally\<close>, a return goes on to \<open>save\<close>.\<close>

definition release_then_save :: "env \<Rightarrow> outcome \<times> Scoreboard \<Rightarrow> outcome \<times> Scoreboard" where
  "release_then_save env r =
     (case r of
        (Threw e, st) \<Rightarrow> (Threw e, emit LockRelease st)
      | (Returned, st) \<Rightarrow> save env (emit LockRelease st))"

definition resetScoreboard :: "env \<Rightarrow> string \<Rightarrow> Scoreboard \<Rightarrow> outcome \<times> Scoreboard" where
  "resetScoreboard env roomId st =
     (let st1 = emit LockAcquire st;
          st2 = st1\<lparr>byRoom := AList.update roomId emptyRoom (byRoom st1)\<rparr>
      in release_then_save env (calculateRoom env roomId st2))"

definition showQACountdown :: "env \<Rightarrow> string \<Rightarrow> int \<Rightarrow> Scoreboard \<Rightarrow> outcome \<times> Scoreboard" where
  "showQACountdown env roomId t st =
     (let st1 = ensureRoom roomId (emit LockAcquire st);
          st2 = st1\<lparr>byRoom := AList.update roomId ((roomOf st1 roomId)\<lparr>qaStartTime := Some t\<rparr>) (byRoom st1)\<rparr>
      in release_then_save env (calculateRoom env roomId st2))"

definition pushVote :: "bool \<Rightarrow> string \<Rightarrow> RoomMessage \<Rightarrow> RoomMessage" where
  "pushVote isUpvote reactionId message =
     (if isUpvote then message\<lparr>activeUpvoteIds := activeUpvoteIds message @ [reactionId]\<rparr>
      else message\<lparr>activeDownvoteIds := activeDownvoteIds message @ [reactionId]\<rparr>)"

definition thumbnailUrl :: "env \<Rightarrow> string \<Rightarrow> string" where
  "thumbnailUrl env avatar =
     (let parts = split_on (CHR ''/'') (drop (length ''mxc://'') avatar);
          part0 = (case parts of [] \<Rightarrow> ''undefined'' | p # _ \<Rightarrow> encodeURIComponent env p);
          part1 = (case parts of _ # q # _ \<Rightarrow> encodeURIComponent env q | _ \<Rightarrow> ''undefined'')
      in homeserverUrl env @ ''/_matrix/media/r0/thumbnail/'' @ part0 @ ''/'' @ part1
           @ ''?method=crop&width=64&height=64'')"

definition addProfile :: "env \<Rightarrow> profile fetched \<Rightarrow> RoomMessage \<Rightarrow> RoomMessage" where
  "addProfile env getUserProfile message =
     (case getUserProfile of
        Rejected \<Rightarrow> message
      | Resolved p \<Rightarrow>
          let m1 = (case displayname p of
                      Some n \<Rightarrow> if n \<noteq> [] then message\<lparr>senderName := Some n\<rparr> else message
                    | None \<Rightarrow> message)
          in (case avatar_url p of
                Some a \<Rightarrow> if a \<noteq> [] \<and> startsWith ''mxc://'' a
                          then m1\<lparr>senderHttpUrl := Some (thumbnailUrl env a)\<rparr> else m1
              | None \<Rightarrow> m1))"

text \<open>
  The guards of \<open>tryAddReaction\<close> before it takes the lock: the vote (\<open>True\<close> for an upvote)
  and the target of a reaction that passes them.
\<close>

definition reactionFilter :: "env \<Rightarrow> string \<Rightarrow> room_event \<Rightarrow> (bool \<times> string) option" where
  "reactionFilter env roomId event =
     (if roomId \<notin> set (storedAuditoriums env) then None
      else case relates_to event of
        None \<Rightarrow> None
      | Some rel \<Rightarrow>
          if rel_type rel \<noteq> Some ''m.annotation'' then None
          else let isUpvote = isEmojiVariant env thumbsUp (key rel);
                   isDownvote = isEmojiVariant env thumbsDown (key rel)
               in if \<not> isUpvote \<and> \<not> isDownvote then None
                  else (case rel_event_id rel of
                          None \<Rightarrow> None
                        | Some target \<Rightarrow> Some (isUpvote, target)))"

text \<open>
  \<open>getEvent\<close> and \<open>getUserProfile\<close> are what the two requests of this call come back
  with: \<open>Rejected\<close> when the promise rejects (the \<open>await\<close> throws), \<open>Resolved\<close> with the
  value otherwise, \<open>Resolved None\<close> for a target that resolves to \<open>null\<close> or \<open>undefined\<close>.
  The \<open>await\<close> of \<open>getEvent\<close> stands in \<open>try ... finally\<close> without a \<open>catch\<close>, the one of
  \<open>getUserProfile\<close> in a \<open>try\<close> whose \<open>catch\<close> ignores the error.
\<close>

definition tryAddReaction ::
  "env \<Rightarrow> target_event option fetched \<Rightarrow> profile fetched \<Rightarrow> string \<Rightarrow> room_event
     \<Rightarrow> Scoreboard \<Rightarrow> outcome \<times> Scoreboard" where
  "tryAddReaction env getEvent getUserProfile roomId event st =
     (case reactionFilter env roomId event of
        None \<Rightarrow> (Returned, st)
      | Some (isUpvote, target) \<Rightarrow>
          let st1 = ensureRoom roomId (emit LockAcquire st);
              scoreboard = roomOf st1 roomId
          in (case find (\<lambda>m. eventId m = target) (messages scoreboard) of
                Some _ \<Rightarrow>
                  let msgs = update_first (\<lambda>m. eventId m = target)
                               (pushVote isUpvote (event_id event)) (messages scoreboard);
                      st2 = st1\<lparr>byRoom := AList.update roomId (scoreboard\<lparr>messages := msgs\<rparr>) (byRoom st1)\<rparr>
                  in release_then_save env (calculateRoom env roomId st2)
              | None \<Rightarrow>
                  (case getEvent of
                     Rejected \<Rightarrow> (Threw RequestError, emit LockRelease st1)
                   | Resolved None \<Rightarrow> (Returned, emit LockRelease st1)
                   | Resolved (Some targetEv) \<Rightarrow>
                       if t_type targetEv \<noteq> ''m.room.message'' then (Returned, emit LockRelease st1)
                       else if t_msgtype targetEv \<noteq> Some ''m.text'' then (Returned, emit LockRelease st1)
                       else (case t_body targetEv of
                               None \<Rightarrow> (Returned, emit LockRelease st1)
                             | Some body \<Rightarrow>
                                 let message = \<lparr>eventId = target, msgText = body,
                                                senderId = t_sender targetEv,
                                                senderName = None, senderHttpUrl = None,
                                                activeUpvoteIds = [], activeDownvoteIds = []\<rparr>;
                                     message1 = pushVote isUpvote (event_id event) message;
                                     message2 = addProfile env getUserProfile message1;
                                     st2 = st1\<lparr>byRoom := AList.update roomId
                                             (scoreboard\<lparr>messages := messages scoreboard @ [message2]\<rparr>)
                                             (byRoom st1)\<rparr>
                                 in release_then_save env (calculateRoom env roomId st2)))))"

definition redactsOf :: "env \<Rightarrow> string \<Rightarrow> room_event \<Rightarrow> string option" where
  "redactsOf env roomId event =
     (if roomId \<notin> set (storedAuditoriums env) then None
      else case redacts event of
        None \<Rightarrow> None
      | Some r \<Rightarrow> if r = [] then None else Some r)"

definition tryRemoveReaction :: "env \<Rightarrow> string \<Rightarrow> room_event \<Rightarrow> Scoreboard \<Rightarrow> outcome \<times> Scoreboard" where
  "tryRemoveReaction env roomId event st =
     (case redactsOf env roomId event of
        None \<Rightarrow> (Returned, st)
      | Some r \<Rightarrow>
          let st1 = emit LockAcquire st in
          (case map_of (byRoom st1) roomId of
             None \<Rightarrow> (Returned, emit LockRelease st1)
           | Some scoreboard \<Rightarrow>
               let upvoteMessage = find (\<lambda>m. r \<in> set (activeUpvoteIds m)) (messages scoreboard);
                   downvoteMessage = find (\<lambda>m. r \<in> set (activeDownvoteIds m)) (messages scoreboard)
               in if upvoteMessage = None \<and> downvoteMessage = None
                  then (Returned, emit LockRelease st1)
                  else
                    let msgs1 = update_first (\<lambda>m. r \<in> set (activeUpvoteIds m))
                                  (\<lambda>m. m\<lparr>activeUpvoteIds := remove1 r (activeUpvoteIds m)\<rparr>)
                                  (messages scoreboard);
                        msgs2 = update_first (\<lambda>m. r \<in> set (activeDownvoteIds m))
                                  (\<lambda>m. m\<lparr>activeDownvoteIds := remove1 r (activeDownvoteIds m)\<rparr>)
                                  msgs1;
                        st2 = st1\<lparr>byRoom := AList.update roomId (scoreboard\<lparr>messages := msgs2\<rparr>) (byRoom st1)\<rparr>
                    in release_then_save env (calculateRoom env roomId st2)))"

definition tryRemoveMessage :: "env \<Rightarrow> string \<Rightarrow> room_event \<Rightarrow> Scoreboard \<Rightarrow> outcome \<times> Scoreboard" where
  "tryRemoveMessage env roomId event st =
     (case redactsOf env roomId event of
        None \<Rightarrow> (Returned, st)
      | Some r \<Rightarrow>
          let st1 = emit LockAcquire st in
          (case map_of (byRoom st1) roomId of
             None \<Rightarrow> (Returned, emit LockRelease st1)
           | Some scoreboard \<Rightarrow>
               (case find (\<lambda>m. eventId m = r) (messages scoreboard) of
                  None \<Rightarrow> (Returned, emit LockRelease st1)
                | Some _ \<Rightarrow>
                    let msgs = remove_first (\<lambda>m. eventId m = r) (messages scoreboard);
                        st2 = st1\<lparr>byRoom := AList.update roomId (scoreboard\<lparr>messages := msgs\<rparr>) (byRoom st1)\<rparr>
                    in release_then_save env (calculateRoom env roomId st2))))"

text \<open>The handler of \<open>room.event\<close> that the constructor registers.\<close>

definition onRoomEvent ::
  "env \<Rightarrow> target_event option fetched \<Rightarrow> profile fetched \<Rightarrow> string \<Rightarrow> room_event
     \<Rightarrow> Scoreboard \<Rightarrow> outcome \<times> Scoreboard" where
  "onRoomEvent env getEvent getUserProfile roomId event st =
     (if ev_type event = ''m.reaction'' then tryAddReaction env getEvent getUserProfile roomId event st
      else if ev_type event = ''m.room.redaction''
      then (case tryRemoveReaction env roomId event st of
              (Threw e, st') \<Rightarrow> (Threw e, st')
            | (Returned, st') \<Rightarrow> tryRemoveMessage env roomId event st')
      else (Returned, st))"

subsection \<open>Notions used in the properties\<close>

text \<open>The text \<open>save\<close> writes, the files it leaves, and what it adds to the trace.\<close>

definition snapshotText :: "env \<Rightarrow> Scoreboard \<Rightarrow> string" where
  "snapshotText env st = stringify env \<lparr>version = JSON_FORMAT_VERSION, rooms = byRoom st\<rparr>"

definition savedFiles :: "env \<Rightarrow> Scoreboard \<Rightarrow> (string \<rightharpoonup> string)" where
  "savedFiles env st = ((files st)(path st @ ''.tmp'' := None))(path st \<mapsto> snapshotText env st)"

definition saveTrace :: "env \<Rightarrow> Scoreboard \<Rightarrow> effect list" where
  "saveTrace env st = LockAcquire # map FileOp (save_ops env st) @ [LockRelease]"

text \<open>
  The state after the common tail of the mutating operations, entered with the room's
  scoreboard \<open>sb\<close> already stored: the view recomputed, the lock released, the snapshot
  saved.
\<close>

definition committed :: "env \<Rightarrow> string \<Rightarrow> RoomScoreboard \<Rightarrow> Scoreboard \<Rightarrow> Scoreboard" where
  "committed env roomId sb st =
     st\<lparr>byRoomCached := AList.update roomId (rankingView env roomId (domain st) sb) (byRoomCached st),
        files := savedFiles env st,
        trace := trace st @ [recalculating roomId, LockRelease] @ saveTrace env st\<rparr>"

text \<open>
  What \<open>tryAddReaction\<close> takes from the fetched target when the target passes its three
  checks (a room message, of type text, with a string body): the body and the sender. And
  the message it then starts to track.
\<close>

definition usableTarget :: "target_event option fetched \<Rightarrow> (string \<times> string) option" where
  "usableTarget getEvent =
     (case getEvent of
        Resolved (Some t) \<Rightarrow>
          if t_type t = ''m.room.message'' \<and> t_msgtype t = Some ''m.text''
          then (case t_body t of Some b \<Rightarrow> Some (b, t_sender t) | None \<Rightarrow> None)
          else None
      | _ \<Rightarrow> None)"

definition newMessage ::
  "env \<Rightarrow> profile fetched \<Rightarrow> bool \<Rightarrow> string \<Rightarrow> string \<Rightarrow> string \<Rightarrow> string \<Rightarrow> RoomMessage" where
  "newMessage env getUserProfile isUpvote reactionId target body sender =
     addProfile env getUserProfile (pushVote isUpvote reactionId
       \<lparr>eventId = target, msgText = body, senderId = sender, senderName = None, senderHttpUrl = None,
        activeUpvoteIds = [], activeDownvoteIds = []\<rparr>)"

text \<open>The state in which the room's changed scoreboard has been written back, under the lock.\<close>

definition stored :: "string \<Rightarrow> RoomScoreboard \<Rightarrow> Scoreboard \<Rightarrow> Scoreboard" where
  "stored roomId sb st = (ensureRoom roomId (emit LockAcquire st))\<lparr>byRoom := AList.update roomId sb (byRoom st)\<rparr>"

text \<open>The vote list a reaction goes to.\<close>

definition votesOf :: "bool \<Rightarrow> RoomMessage \<Rightarrow> string list" where
  "votesOf isUpvote m = (if isUpvote then activeUpvoteIds m else activeDownvoteIds m)"

text \<open>The operations of the engine, as data, and what performing one does.\<close>

datatype operation =
    ResetRoom string
  | SetCountdown string int
  | RecordReaction "target_event option fetched" "profile fetched" string room_event
  | RemoveReaction string room_event
  | RemoveMessage string room_event
  | Load

fun perform :: "env \<Rightarrow> operation \<Rightarrow> Scoreboard \<Rightarrow> outcome \<times> Scoreboard" where
  "perform env (ResetRoom roomId) st = resetScoreboard env roomId st"
| "perform env (SetCountdown roomId t) st = showQACountdown env roomId t st"
| "perform env (RecordReaction getEvent getUserProfile roomId event) st =
     tryAddReaction env getEvent getUserProfile roomId event st"
| "perform env (RemoveReaction roomId event) st = tryRemoveReaction env roomId event st"
| "perform env (RemoveMessage roomId event) st = tryRemoveMessage env roomId event st"
| "perform env Load st = load env st"

text \<open>
  The messages of a room after \<open>tryRemoveReaction\<close> has taken the id out: out of the
  upvotes of the first message that has it there, and out of the downvotes of the first
  message that has it there.
\<close>

definition unvoted :: "string \<Rightarrow> RoomMessage list \<Rightarrow> RoomMessage list" where
  "unvoted r msgs =
     update_first (\<lambda>m. r \<in> set (activeDownvoteIds m))
       (\<lambda>m. m\<lparr>activeDownvoteIds := remove1 r (activeDownvoteIds m)\<rparr>)
       (update_first (\<lambda>m. r \<in> set (activeUpvoteIds m))
          (\<lambda>m. m\<lparr>activeUpvoteIds := remove1 r (activeUpvoteIds m)\<rparr>) msgs)"

text \<open>
  The invariant of the ledger. No message of a tracked room has an id in both vote lists,
  and the view of a tracked room is the one computed from its scoreboard (a room created
  on demand and not yet ranked is empty and has no view); an untracked room has no view.
\<close>

definition votesDisjoint :: "RoomScoreboard \<Rightarrow> bool" where
  "votesDisjoint sb =
     (\<forall>m \<in> set (messages sb). set (activeUpvoteIds m) \<inter> set (activeDownvoteIds m) = {})"

text \<open>
  The score in the words of the specification: the size of the set of upvote ids less the
  size of the set of downvote ids.
\<close>

definition setScore :: "RoomMessage \<Rightarrow> int" where
  "setScore m = int (card (set (activeUpvoteIds m))) - int (card (set (activeDownvoteIds m)))"

definition ledgerInvariant :: "env \<Rightarrow> Scoreboard \<Rightarrow> bool" where
  "ledgerInvariant env st =
     (\<forall>r. (map_of (byRoom st) r = None \<longrightarrow> getScoreboard st r = None) \<and>
          (\<forall>sb. map_of (byRoom st) r = Some sb \<longrightarrow>
             votesDisjoint sb \<and>
             (getScoreboard st r = Some (rankingView env r (domain st) sb) \<or>
              getScoreboard st r = None \<and> sb = emptyRoom)))"

text \<open>
  The value \<open>JSON.parse\<close> returns for a text that holds a document of the declared type.
\<close>

definition wellShaped :: "ScoreboardJson \<Rightarrow> parsed" where
  "wellShaped json = JsonValue (Some (version json)) (map (apsnd Some) (rooms json))"

text \<open>
  What the invariant needs from outside: a reaction whose id is not already among the
  opposite votes of its target, and a snapshot whose rooms are scoreboards with messages
  that keep the two lists apart.
\<close>

definition reactionFresh :: "env \<Rightarrow> string \<Rightarrow> room_event \<Rightarrow> Scoreboard \<Rightarrow> bool" where
  "reactionFresh env roomId event st =
     (case reactionFilter env roomId event of
        None \<Rightarrow> True
      | Some (isUpvote, target) \<Rightarrow>
          (case find (\<lambda>m. eventId m = target) (messages (roomOf st roomId)) of
             None \<Rightarrow> True
           | Some m \<Rightarrow> event_id event \<notin> set (votesOf (\<not> isUpvote) m)))"

definition snapshotDisjoint :: "env \<Rightarrow> Scoreboard \<Rightarrow> bool" where
  "snapshotDisjoint env st =
     (case readFile (files st) (path st) of
        Inl e \<Rightarrow> True
      | Inr data \<Rightarrow>
          (case parse env data of
             None \<Rightarrow> True
           | Some JsonNull \<Rightarrow> True
           | Some (JsonValue jsonVersion jsonRooms) \<Rightarrow>
               (\<forall>(r, room) \<in> set jsonRooms.
                  case room of None \<Rightarrow> False | Some sb \<Rightarrow> votesDisjoint sb)))"

fun admissible :: "env \<Rightarrow> operation \<Rightarrow> Scoreboard \<Rightarrow> bool" where
  "admissible env (RecordReaction getEvent getUserProfile roomId event) st = reactionFresh env roomId event st"
| "admissible env Load st = snapshotDisjoint env st"
| "admissible env _ st = True"

text \<open>
  The lock after a trace, held or free; \<open>None\<close> when the trace takes a lock that is
  held or releases one that is free.
\<close>

fun lockAfter :: "effect list \<Rightarrow> bool \<Rightarrow> bool option" where
  "lockAfter [] held = Some held"
| "lockAfter (LockAcquire # es) held = (if held then None else lockAfter es True)"
| "lockAfter (LockRelease # es) held = (if held then lockAfter es False else None)"
| "lockAfter (_ # es) held = lockAfter es held"





text \<open>
  What \<open>load\<close> cannot use: a file that cannot be read, a text that is not JSON, a value
  other than \<open>null\<close> whose version is not the current one. And what it cannot read: \<open>null\<close>,
  and a value of the current version with a room that is not a scoreboard.
\<close>

definition unusable :: "env \<Rightarrow> io_error + string \<Rightarrow> bool" where
  "unusable env rd =
     (case rd of
        Inl e \<Rightarrow> True
      | Inr data \<Rightarrow>
          (case parse env data of
             None \<Rightarrow> True
           | Some JsonNull \<Rightarrow> False
           | Some (JsonValue jsonVersion jsonRooms) \<Rightarrow> jsonVersion \<noteq> Some JSON_FORMAT_VERSION))"


subsection \<open>Sample data\<close>

text \<open>
  One auditorium and concrete collaborators, for the examples below. The sample
  \<open>isEmojiVariant\<close> compares the first code point (four bytes of UTF-8); the sample JSON
  codec writes one document and reads its text and four more: \<open>null\<close>, a snapshot whose
  room has no messages, a snapshot of an older version, and a snapshot with one id in
  both vote lists of a message.
\<close>

definition sampleRoomId :: string where
  "sampleRoomId = ''!aud:example.org''"

definition otherRoomId :: string where
  "otherRoomId = ''!hall:example.org''"

definition question :: "string \<Rightarrow> string list \<Rightarrow> string list \<Rightarrow> RoomMessage" where
  "question ev ups downs =
     \<lparr>eventId = ev, msgText = ''Q '' @ ev, senderId = ''@alice:example.org'', senderName = None,
      senderHttpUrl = None, activeUpvoteIds = ups, activeDownvoteIds = downs\<rparr>"

definition sampleDoc :: ScoreboardJson where
  "sampleDoc =
     \<lparr>version = 1,
      rooms = [(sampleRoomId,
                \<lparr>qaStartTime = Some 1700000000000, messages = [question ''$m1'' [''$u1''] []]\<rparr>)]\<rparr>"

definition sampleJsonText :: string where
  \<open>sampleJsonText = ''{"version":1,"rooms":{"!aud:example.org":{"qaStartTime":1700000000000,"messages":[{"activeUpvoteIds":["$u1"],"activeDownvoteIds":[],"eventId":"$m1","senderId":"@alice:example.org","text":"Q $m1"}]}}}''\<close>

definition nullText :: string where
  "nullText = ''null''"

definition noMessagesText :: string where
  \<open>noMessagesText = ''{"version":1,"rooms":{"!aud:example.org":{}}}''\<close>

definition olderText :: string where
  \<open>olderText = ''{"version":0,"rooms":{}}''\<close>

definition cutText :: string where
  \<open>cutText = ''{"version":''\<close>

definition clashText :: string where
  \<open>clashText = ''{"version":1,"rooms":{"!aud:example.org":{"messages":[{"activeUpvoteIds":["$x1"],"activeDownvoteIds":["$x1"],"eventId":"$m1","senderId":"@alice:example.org","text":"Q $m1"}]}}}''\<close>

definition sampleParse :: "string \<Rightarrow> parsed option" where
  "sampleParse s =
     (if s = sampleJsonText then Some (wellShaped sampleDoc)
      else if s = nullText then Some JsonNull
      else if s = noMessagesText then Some (JsonValue (Some 1) [(sampleRoomId, None)])
      else if s = olderText then Some (JsonValue (Some 0) [])
      else if s = clashText
        then Some (JsonValue (Some 1)
               [(sampleRoomId, Some \<lparr>qaStartTime = None, messages = [question ''$m1'' [''$x1''] [''$x1'']]\<rparr>)])
      else None)"

definition sampleEnv :: env where
  "sampleEnv =
     \<lparr>storedAuditoriums = [sampleRoomId, otherRoomId],
      isEmojiVariant = (\<lambda>expected value.
         case value of None \<Rightarrow> False | Some v \<Rightarrow> take 4 v = take 4 expected),
      forEvent = (\<lambda>roomId eventId via.
         ''https://matrix.to/#/'' @ roomId @ ''/'' @ eventId @ concat (map (\<lambda>d. ''?via='' @ d) via)),
      homeserverUrl = ''https://example.org'',
      encodeURIComponent = (\<lambda>s. s),
      stringify = (\<lambda>j. if j = sampleDoc then sampleJsonText else ''{}''),
      parse = sampleParse\<rparr>"

definition freshBoard :: Scoreboard where
  "freshBoard =
     \<lparr>path = ''data/scoreboard.json'', byRoom = [], byRoomCached = [], domain = ''example.org'',
      files = Map.empty, trace = []\<rparr>"

definition scenarioD_room :: RoomScoreboard where
  "scenarioD_room =
     \<lparr>qaStartTime = None,
      messages = [question ''$m0'' [] [''$d0''], question ''$m1'' [''$u1''] [],
                  question ''$m2'' [''$u2''] []]\<rparr>"

definition scenarioD :: Scoreboard where
  "scenarioD = freshBoard\<lparr>byRoom := [(sampleRoomId, scenarioD_room)]\<rparr>"

text \<open>The fresh board with a snapshot file of the given text.\<close>

definition onDisk :: "string \<Rightarrow> Scoreboard" where
  "onDisk data = freshBoard\<lparr>files := [''data/scoreboard.json'' \<mapsto> data]\<rparr>"

text \<open>Two tracked rooms, and an older snapshot on disk.\<close>

definition twoRooms :: Scoreboard where
  "twoRooms =
     freshBoard\<lparr>byRoom := [(sampleRoomId, scenarioD_room),
                           (otherRoomId, \<lparr>qaStartTime = Some 5, messages = [question ''$n1'' [''$v1''] []]\<rparr>)],
                files := [''data/scoreboard.json'' \<mapsto> ''old'']\<rparr>"

text \<open>A board whose snapshot is the sample document.\<close>

definition sampleSaved :: Scoreboard where
  "sampleSaved = freshBoard\<lparr>byRoom := rooms sampleDoc, domain := ''conference.example''\<rparr>"

text \<open>
  A reaction with the given id, emoji and target; a fetched plain-text message; and the
  fresh board after the same upvote has been handled once and twice.
\<close>

definition reaction :: "string \<Rightarrow> string \<Rightarrow> string \<Rightarrow> room_event" where
  "reaction reactionId emoji target =
     \<lparr>ev_type = ''m.reaction'', event_id = reactionId,
      relates_to = Some \<lparr>rel_type = Some ''m.annotation'', key = Some emoji, rel_event_id = Some target\<rparr>,
      redacts = None\<rparr>"

definition plainText :: "string \<Rightarrow> target_event option fetched" where
  "plainText body =
     Resolved (Some \<lparr>t_type = ''m.room.message'', t_msgtype = Some ''m.text'', t_body = Some body,
                     t_sender = ''@alice:example.org''\<rparr>)"

definition votedOnce :: Scoreboard where
  "votedOnce = snd (tryAddReaction sampleEnv (plainText ''Hi'') Rejected sampleRoomId
                      (reaction ''$u1'' thumbsUp ''$m1'') freshBoard)"

definition votedTwice :: Scoreboard where
  "votedTwice = snd (tryAddReaction sampleEnv (plainText ''Hi'') Rejected sampleRoomId
                       (reaction ''$u1'' thumbsUp ''$m1'') votedOnce)"

text \<open>
  Scenarios A to C: after the sample upvote, a second upvote and a downvote of the same
  message; then the redaction of the second upvote; then the redaction of the message.
\<close>

definition redaction :: "string \<Rightarrow> room_event" where
  "redaction redacted =
     \<lparr>ev_type = ''m.room.redaction'', event_id = ''$r:'' @ redacted, relates_to = None,
      redacts = Some redacted\<rparr>"

definition scenarioA :: Scoreboard where
  "scenarioA =
     snd (onRoomEvent sampleEnv Rejected Rejected sampleRoomId (reaction ''$d1'' thumbsDown ''$m1'')
       (snd (onRoomEvent sampleEnv Rejected Rejected sampleRoomId (reaction ''$u2'' thumbsUp ''$m1'')
          votedOnce)))"

definition scenarioB :: Scoreboard where
  "scenarioB = snd (onRoomEvent sampleEnv Rejected Rejected sampleRoomId (redaction ''$u2'') scenarioA)"

definition scenarioC :: Scoreboard where
  "scenarioC = snd (onRoomEvent sampleEnv Rejected Rejected sampleRoomId (redaction ''$m1'') scenarioB)"

definition tally :: "Scoreboard \<Rightarrow> string \<Rightarrow> (string \<times> string list \<times> string list) list" where
  "tally st roomId = map (\<lambda>m. (eventId m, activeUpvoteIds m, activeDownvoteIds m)) (messages (roomOf st roomId))"

definition shownScores :: "Scoreboard \<Rightarrow> string \<Rightarrow> int list option" where
  "shownScores st roomId = map_option (map upvotes \<circ> ordered) (getScoreboard st roomId)"

definition hi :: "string list \<Rightarrow> string list \<Rightarrow> RoomMessage" where
  "hi ups downs = \<lparr>eventId = ''$m1'', msgText = ''Hi'', senderId = ''@alice:example.org'',
       senderName = None, senderHttpUrl = None, activeUpvoteIds = ups, activeDownvoteIds = downs\<rparr>"

section \<open>Properties\<close>

subsection \<open>The ranking is a stable sort by score\<close>

lemma insert_by_score:
  "insert_by (\<lambda>a b. upvotes b - upvotes a) x ys = insort_key (\<lambda>m. - upvotes m) x ys"
  by (induction ys) auto

lemma array_sort_score:
  "array_sort (\<lambda>a b. upvotes b - upvotes a) xs = sort_key (\<lambda>m. - upvotes m) xs"
  by (induction xs) (simp_all add: array_sort_def insert_by_score)

lemma sorted_desc:
  "sorted_wrt (\<lambda>a b. upvotes b \<le> upvotes a) (sort_key (\<lambda>m. - upvotes m) xs)"
proof -
  have "sorted (map (\<lambda>m. - upvotes m) (sort_key (\<lambda>m. - upvotes m) xs))"
    by (rule sorted_sort_key)
  then show ?thesis
    by (simp add: sorted_map sorted_wrt_iff_nth_less)
qed

lemma stable_by_score:
  "filter (\<lambda>c. upvotes c = k) (sort_key (\<lambda>m. - upvotes m) xs) = filter (\<lambda>c. upvotes c = k) xs"
  using sort_key_stable[of "\<lambda>m. - upvotes m" "- k" xs] by simp

lemma rankingView_sort_key:
  "rankingView env roomId homeDomain sb =
     \<lparr>cachedQaStartTime = qaStartTime sb,
      ordered = sort_key (\<lambda>m. - upvotes m) (map (displayRecord env roomId homeDomain) (messages sb))\<rparr>"
  by (simp add: rankingView_def array_sort_score)

lemma emit_fields [simp]:
  "path (emit e st) = path st" "byRoom (emit e st) = byRoom st"
  "byRoomCached (emit e st) = byRoomCached st" "domain (emit e st) = domain st"
  "files (emit e st) = files st" "trace (emit e st) = trace st @ [e]"
  by (simp_all add: emit_def)

lemma calc_lookup:
  "map_of (byRoom st) roomId = Some sb \<Longrightarrow>
   calculateRoom env roomId st =
     (Returned,
      (emit (recalculating roomId) st)
        \<lparr>byRoomCached := AList.update roomId (rankingView env roomId (domain st) sb) (byRoomCached st)\<rparr>)"
  by (simp add: calculateRoom_def)

text \<open>
  C1. For a tracked room, \<open>calculateRoom\<close> returns, and the view it stores for the room
  holds exactly the display records of the room's messages (as a multiset), in descending
  order of score, and for every score the records of that score stand in the order in
  which their messages are tracked: among equal scores the message tracked earlier comes
  first.
\<close>

theorem calculateRoom_ranking:
  assumes "map_of (byRoom st) roomId = Some scoreboard"
  shows "fst (calculateRoom env roomId st) = Returned \<and>
    (\<exists>view. getScoreboard (snd (calculateRoom env roomId st)) roomId = Some view \<and>
       cachedQaStartTime view = qaStartTime scoreboard \<and>
       mset (ordered view) = mset (map (displayRecord env roomId (domain st)) (messages scoreboard)) \<and>
       sorted_wrt (\<lambda>a b. upvotes b \<le> upvotes a) (ordered view) \<and>
       (\<forall>k. filter (\<lambda>c. upvotes c = k) (ordered view)
            = filter (\<lambda>c. upvotes c = k)
                (map (displayRecord env roomId (domain st)) (messages scoreboard))))"
  using assms
  by (simp add: calc_lookup getScoreboard_def update_conv' sorted_desc stable_by_score
        rankingView_sort_key)

text \<open>
  Scenario D: two questions with one upvote each and one with a downvote; the earlier of
  the two upvoted questions is listed first, the downvoted one last.
\<close>

theorem calculateRoom_ranking_witness:
  "map_of (byRoom scenarioD) sampleRoomId = Some scenarioD_room \<and>
   fst (calculateRoom sampleEnv sampleRoomId scenarioD) = Returned \<and>
   (\<exists>view. getScoreboard (snd (calculateRoom sampleEnv sampleRoomId scenarioD)) sampleRoomId = Some view \<and>
      map cachedText (ordered view) = [''Q $m1'', ''Q $m2'', ''Q $m0''] \<and>
      map upvotes (ordered view) = [1, 1, - 1] \<and>
      sorted_wrt (\<lambda>a b. upvotes b \<le> upvotes a) (ordered view))"
proof -
  have h: "map_of (byRoom scenarioD) sampleRoomId = Some scenarioD_room"
    by (simp add: scenarioD_def)
  have c: "getScoreboard (snd (calculateRoom sampleEnv sampleRoomId scenarioD)) sampleRoomId
      = Some \<lparr>cachedQaStartTime = None,
              ordered = map (displayRecord sampleEnv sampleRoomId ''example.org'')
                [question ''$m1'' [''$u1''] [], question ''$m2'' [''$u2''] [],
                 question ''$m0'' [] [''$d0'']]\<rparr>"
    unfolding calc_lookup[OF h, of sampleEnv] getScoreboard_def
    by (simp add: update_conv' scenarioD_def freshBoard_def scenarioD_room_def rankingView_sort_key
          displayRecord_def question_def)
  from calculateRoom_ranking[OF h, of sampleEnv] c show ?thesis
    using h by (auto simp: displayRecord_def question_def)
qed

subsection \<open>Saving\<close>

lemma save_ops_emit [simp]:
  "save_ops env (emit e st) = save_ops env st" "save_ops env (st\<lparr>trace := t\<rparr>) = save_ops env st"
  "snapshotText env (emit e st) = snapshotText env st"
  "snapshotText env (st\<lparr>trace := t\<rparr>) = snapshotText env st"
  by (simp_all add: save_ops_def snapshotText_def)

lemma fs_exec_save_ops:
  "path st' = path st \<Longrightarrow> byRoom st' = byRoom st \<Longrightarrow>
   fs_exec (save_ops env st) st'
     = (Returned, st'\<lparr>files := ((files st')(path st @ ''.tmp'' := None))(path st \<mapsto> snapshotText env st),
              trace := trace st' @ map FileOp (save_ops env st)\<rparr>)"
  by (simp add: save_ops_def snapshotText_def Let_def emit_def)

lemma save_eq:
  "save env st
     = (Returned, st\<lparr>files := savedFiles env st, trace := trace st @ saveTrace env st\<rparr>)"
  by (simp add: save_def Let_def fs_exec_save_ops savedFiles_def saveTrace_def emit_def)

lemma commit_eq:
  assumes "map_of (byRoom st) roomId = Some sb"
  shows "release_then_save env (calculateRoom env roomId st) = (Returned, committed env roomId sb st)"
  using assms
  by (simp add: release_then_save_def calc_lookup save_eq committed_def emit_def savedFiles_def
        snapshotText_def saveTrace_def save_ops_def)

lemma committed_fields [simp]:
  "path (committed env r sb st) = path st" "byRoom (committed env r sb st) = byRoom st"
  "domain (committed env r sb st) = domain st"
  "byRoomCached (committed env r sb st)
     = AList.update r (rankingView env r (domain st) sb) (byRoomCached st)"
  "files (committed env r sb st) = savedFiles env st"
  by (simp_all add: committed_def)

text \<open>
  C4. \<open>save\<close> returns; it leaves at the canonical path the text of the document
  \<open>{version, rooms}\<close> with every room of \<open>byRoom\<close>; the files it leaves are the last of the
  states in which its two file operations (the write of the temporary file, then the
  rename) can be cut off; and in every such state, a write cut off half way included,
  the canonical path still holds what it held before or already holds the complete new
  text.
\<close>

theorem save_atomic:
  "fst (save env st) = Returned \<and>
   byRoom (snd (save env st)) = byRoom st \<and>
   files (snd (save env st)) (path st)
     = Some (stringify env \<lparr>version = JSON_FORMAT_VERSION, rooms = byRoom st\<rparr>) \<and>
   files (snd (save env st)) = last (fs_crash_states (save_ops env st) (files st)) \<and>
   (\<forall>fs \<in> set (fs_crash_states (save_ops env st) (files st)).
      fs (path st) = files st (path st) \<or>
      fs (path st) = Some (stringify env \<lparr>version = JSON_FORMAT_VERSION, rooms = byRoom st\<rparr>))"
proof -
  let ?tmp = "path st @ ''.tmp''"
  let ?new = "stringify env \<lparr>version = JSON_FORMAT_VERSION, rooms = byRoom st\<rparr>"
  let ?written = "(files st)(?tmp \<mapsto> ?new)"
  let ?renamed = "((files st)(?tmp := None))(path st \<mapsto> ?new)"
  have ops: "save_ops env st = [WriteFile ?tmp ?new, Rename ?tmp (path st)]"
    by (simp add: save_ops_def Let_def)
  have states: "fs_crash_states (save_ops env st) (files st)
      = files st # map (\<lambda>n. (files st)(?tmp \<mapsto> take n ?new)) [0..<length ?new]
          @ [?written, ?renamed]"
    by (simp add: ops del: append_assoc)
  have tmp: "?tmp \<noteq> path st"
    by simp
  have result: "save env st
      = (Returned, st\<lparr>files := ?renamed, trace := trace st @ saveTrace env st\<rparr>)"
    by (simp add: save_eq savedFiles_def snapshotText_def)
  have untouched: "fs (path st) = files st (path st)"
    if "fs \<in> set (files st # map (\<lambda>n. (files st)(?tmp \<mapsto> take n ?new)) [0..<length ?new] @ [?written])"
    for fs
    using that tmp by auto
  have replaced: "?renamed (path st) = Some ?new"
    by simp
  from untouched replaced have "fs (path st) = files st (path st) \<or> fs (path st) = Some ?new"
    if "fs \<in> set (fs_crash_states (save_ops env st) (files st))" for fs
    using that unfolding states by auto
  then show ?thesis
    by (simp add: result states)
qed

text \<open>
  A save over an older snapshot: cut off after the first byte of the temporary file, the
  canonical path still holds the old text; run to its end, it holds the new text and the
  temporary file is gone.
\<close>

theorem save_atomic_witness:
  "(files twoRooms)(''data/scoreboard.json.tmp'' \<mapsto> ''{'')
     \<in> set (fs_crash_states (save_ops sampleEnv twoRooms) (files twoRooms)) \<and>
   files twoRooms ''data/scoreboard.json'' = Some ''old'' \<and>
   ((files twoRooms)(''data/scoreboard.json.tmp'' \<mapsto> ''{'')) ''data/scoreboard.json'' = Some ''old'' \<and>
   files (snd (save sampleEnv twoRooms)) ''data/scoreboard.json'' = Some ''{}'' \<and>
   files (snd (save sampleEnv twoRooms)) ''data/scoreboard.json.tmp'' = None"
proof -
  have m: "(files twoRooms)(''data/scoreboard.json.tmp'' \<mapsto> ''{'')
     \<in> set (fs_crash_states (save_ops sampleEnv twoRooms) (files twoRooms))"
    by (simp add: save_ops_def twoRooms_def freshBoard_def sampleEnv_def Let_def sampleDoc_def
          JSON_FORMAT_VERSION_def)
  have s: "stringify sampleEnv \<lparr>version = JSON_FORMAT_VERSION, rooms = byRoom twoRooms\<rparr> = ''{}''"
    by (simp add: twoRooms_def freshBoard_def sampleEnv_def sampleDoc_def)
  have p: "path twoRooms = ''data/scoreboard.json''"
    by (simp add: twoRooms_def freshBoard_def)
  from save_atomic[of sampleEnv twoRooms] m s p show ?thesis
    by (auto simp: save_eq savedFiles_def twoRooms_def freshBoard_def)
qed

subsection \<open>The countdown\<close>

lemma ensureRoom_fields [simp]:
  "path (ensureRoom r st) = path st" "byRoomCached (ensureRoom r st) = byRoomCached st"
  "domain (ensureRoom r st) = domain st" "files (ensureRoom r st) = files st"
  "trace (ensureRoom r st) = trace st"
  by (simp_all add: ensureRoom_def split: option.split)

lemma roomOf_emit [simp]: "roomOf (emit e st) r = roomOf st r"
  by (simp add: roomOf_def)

lemma ensureRoom_lookup:
  "map_of (byRoom (ensureRoom r st)) r' =
     (if r' = r then Some (roomOf st r) else map_of (byRoom st) r')"
  by (simp add: ensureRoom_def roomOf_def update_conv' split: option.split)

lemma roomOf_ensureRoom [simp]: "roomOf (ensureRoom r st) r' = roomOf st r'"
  by (simp add: roomOf_def ensureRoom_lookup)

lemma update_ensureRoom:
  "AList.update r sb (byRoom (ensureRoom r st)) = AList.update r sb (byRoom st)"
  by (simp add: ensureRoom_def update_last split: option.split)

lemma showQACountdown_eq:
  "showQACountdown env roomId t st =
     (Returned, committed env roomId ((roomOf st roomId)\<lparr>qaStartTime := Some t\<rparr>)
        ((ensureRoom roomId (emit LockAcquire st))
           \<lparr>byRoom := AList.update roomId ((roomOf st roomId)\<lparr>qaStartTime := Some t\<rparr>) (byRoom st)\<rparr>))"
  by (simp add: showQACountdown_def Let_def commit_eq update_conv' update_ensureRoom)

text \<open>
  C10. \<open>showQACountdown\<close> returns; afterwards the target room is tracked with the given
  start time and with the messages it had before (none if it was untracked), and its view
  is the one computed from that scoreboard; every other room has the scoreboard and the
  cached view it had before.
\<close>

theorem showQACountdown_frame:
  "fst (showQACountdown env roomId t st) = Returned \<and>
   (\<exists>sb. map_of (byRoom (snd (showQACountdown env roomId t st))) roomId = Some sb \<and>
      qaStartTime sb = Some t \<and>
      messages sb = (case map_of (byRoom st) roomId of None \<Rightarrow> [] | Some old \<Rightarrow> messages old) \<and>
      getScoreboard (snd (showQACountdown env roomId t st)) roomId
        = Some (rankingView env roomId (domain st) sb)) \<and>
   (\<forall>r. r \<noteq> roomId \<longrightarrow>
      map_of (byRoom (snd (showQACountdown env roomId t st))) r = map_of (byRoom st) r \<and>
      getScoreboard (snd (showQACountdown env roomId t st)) r = getScoreboard st r) \<and>
   domain (snd (showQACountdown env roomId t st)) = domain st \<and>
   path (snd (showQACountdown env roomId t st)) = path st"
proof -
  let ?sb = "(roomOf st roomId)\<lparr>qaStartTime := Some t\<rparr>"
  let ?st = "snd (showQACountdown env roomId t st)"
  have rooms: "map_of (byRoom ?st) = (map_of (byRoom st))(roomId \<mapsto> ?sb)"
    by (simp add: showQACountdown_eq update_conv')
  have views: "map_of (byRoomCached ?st)
      = (map_of (byRoomCached st))(roomId \<mapsto> rankingView env roomId (domain st) ?sb)"
    by (simp add: showQACountdown_eq update_conv')
  have kept: "messages ?sb = (case map_of (byRoom st) roomId of None \<Rightarrow> [] | Some old \<Rightarrow> messages old)"
    by (simp add: roomOf_def emptyRoom_def split: option.split)
  have target: "map_of (byRoom ?st) roomId = Some ?sb \<and> qaStartTime ?sb = Some t \<and>
      messages ?sb = (case map_of (byRoom st) roomId of None \<Rightarrow> [] | Some old \<Rightarrow> messages old) \<and>
      getScoreboard ?st roomId = Some (rankingView env roomId (domain st) ?sb)"
    using kept by (simp add: rooms views getScoreboard_def)
  have others: "map_of (byRoom ?st) r = map_of (byRoom st) r \<and> getScoreboard ?st r = getScoreboard st r"
    if "r \<noteq> roomId" for r
    using that by (simp add: rooms views getScoreboard_def)
  have rest: "fst (showQACountdown env roomId t st) = Returned" "domain ?st = domain st" "path ?st = path st"
    by (simp_all add: showQACountdown_eq)
  from target others rest show ?thesis
    by blast
qed

text \<open>With two tracked rooms, the countdown of one leaves the other as it was.\<close>

theorem showQACountdown_frame_witness:
  "otherRoomId \<noteq> sampleRoomId \<and>
   map_of (byRoom (snd (showQACountdown sampleEnv sampleRoomId 1700000000000 twoRooms))) otherRoomId
     = Some \<lparr>qaStartTime = Some 5, messages = [question ''$n1'' [''$v1''] []]\<rparr> \<and>
   getScoreboard (snd (showQACountdown sampleEnv sampleRoomId 1700000000000 twoRooms)) otherRoomId = None \<and>
   map_of (byRoom (snd (showQACountdown sampleEnv sampleRoomId 1700000000000 twoRooms))) sampleRoomId
     = Some (scenarioD_room\<lparr>qaStartTime := Some 1700000000000\<rparr>)"
proof -
  have n: "otherRoomId \<noteq> sampleRoomId"
    by (simp add: otherRoomId_def sampleRoomId_def)
  have o: "map_of (byRoom twoRooms) otherRoomId
      = Some \<lparr>qaStartTime = Some 5, messages = [question ''$n1'' [''$v1''] []]\<rparr>"
    "getScoreboard twoRooms otherRoomId = None"
    "map_of (byRoom twoRooms) sampleRoomId = Some scenarioD_room"
    using n by (simp_all add: twoRooms_def freshBoard_def getScoreboard_def)
  from showQACountdown_frame[of sampleEnv sampleRoomId 1700000000000 twoRooms] n o
  show ?thesis
    by (auto simp: scenarioD_room_def)
qed

subsection \<open>Loading\<close>

lemma loadRooms_step:
  "loadRooms env ((r, Some sb) # rest) st =
     loadRooms env rest
       ((emit (recalculating r) (st\<lparr>byRoom := AList.update r sb (byRoom st)\<rparr>))
          \<lparr>byRoomCached := AList.update r (rankingView env r (domain st) sb) (byRoomCached st)\<rparr>)"
  by (simp add: calc_lookup update_conv')

lemma loadRooms_outcome:
  "fst (loadRooms env rs st) = (if None \<in> snd ` set rs then Threw TypeError else Returned)"
proof (induction rs arbitrary: st)
  case Nil
  show ?case by simp
next
  case (Cons a rs)
  obtain r room where a: "a = (r, room)" by (cases a)
  show ?case
  proof (cases room)
    case None
    then show ?thesis by (simp add: a)
  next
    case (Some sb)
    then show ?thesis
      by (simp add: a loadRooms_step Cons.IH del: loadRooms.simps(3))
  qed
qed

lemma loadRooms_returns: "fst (loadRooms env (map (apsnd Some) rs) st) = Returned"
  by (auto simp: loadRooms_outcome)

lemma loadRooms_frame:
  "path (snd (loadRooms env rs st)) = path st \<and> domain (snd (loadRooms env rs st)) = domain st \<and>
   files (snd (loadRooms env rs st)) = files st"
proof (induction rs arbitrary: st)
  case Nil
  show ?case by simp
next
  case (Cons a rs)
  obtain r room where a: "a = (r, room)" by (cases a)
  show ?case
  proof (cases room)
    case None
    then show ?thesis by (simp add: a)
  next
    case (Some sb)
    then show ?thesis
      by (simp add: a loadRooms_step Cons.IH del: loadRooms.simps(3))
  qed
qed

lemma loadRooms_byRoom:
  "map_of (byRoom (snd (loadRooms env (map (apsnd Some) rs) st))) = map_of (byRoom st) ++ map_of (rev rs)"
proof (induction rs arbitrary: st)
  case Nil
  then show ?case by simp
next
  case (Cons a rs)
  obtain r sb where a: "a = (r, sb)" by (cases a)
  have m: "map (apsnd Some) ((r, sb) # rs) = (r, Some sb) # map (apsnd Some) rs"
    by simp
  show ?case
    unfolding a m loadRooms_step Cons.IH
    by (simp add: update_conv' fun_eq_iff map_add_def split: option.split)
qed

lemma loadRooms_cached:
  "map_of (byRoomCached (snd (loadRooms env (map (apsnd Some) rs) st))) r =
     (case map_of (rev rs) r of
        None \<Rightarrow> map_of (byRoomCached st) r
      | Some sb \<Rightarrow> Some (rankingView env r (domain st) sb))"
proof (induction rs arbitrary: st)
  case Nil
  then show ?case by simp
next
  case (Cons a rs)
  obtain r' sb' where a: "a = (r', sb')" by (cases a)
  have m: "map (apsnd Some) ((r', sb') # rs) = (r', Some sb') # map (apsnd Some) rs"
    by simp
  show ?case
    unfolding a m loadRooms_step Cons.IH
    by (simp add: update_conv' map_add_def split: option.split)
qed

lemma update_fresh: "k \<notin> fst ` set al \<Longrightarrow> AList.update k v al = al @ [(k, v)]"
  by (induction al) auto

lemma loadRooms_appends:
  "distinct (map fst rs) \<Longrightarrow> fst ` set (byRoom st) \<inter> fst ` set rs = {} \<Longrightarrow>
   byRoom (snd (loadRooms env (map (apsnd Some) rs) st)) = byRoom st @ rs"
proof (induction rs arbitrary: st)
  case Nil
  then show ?case by simp
next
  case (Cons a rs)
  obtain r sb where a: "a = (r, sb)" by (cases a)
  from Cons.prems have fresh: "r \<notin> fst ` set (byRoom st)" and d: "distinct (map fst rs)"
    and r: "r \<notin> fst ` set rs" and dis: "fst ` set (byRoom st) \<inter> fst ` set rs = {}"
    by (auto simp: a)
  have m: "map (apsnd Some) (a # rs) = (r, Some sb) # map (apsnd Some) rs"
    by (simp add: a)
  have "byRoom (snd (loadRooms env (map (apsnd Some) (a # rs)) st)) = (byRoom st @ [(r, sb)]) @ rs"
    unfolding m loadRooms_step
    by (subst Cons.IH) (use d r dis fresh in \<open>auto simp: update_fresh\<close>)
  then show ?case by (simp add: a)
qed

lemma loadFrom_unusable:
  "unusable env rd \<Longrightarrow>
   loadFrom env rd st =
     (Returned, if rd = Inl ENOENT then st
                else emit (LogWarn (case rd of
                       Inl e \<Rightarrow> ''Cannot load scoreboard:''
                     | Inr data \<Rightarrow> (case parse env data of
                                       None \<Rightarrow> ''Cannot load scoreboard: invalid JSON''
                                     | Some json \<Rightarrow> ''Cannot load scoreboard version''))) st)"
  by (auto simp: unusable_def loadFrom_def split: sum.splits option.splits parsed.splits)

lemma loadFrom_null:
  "rd = Inr data \<Longrightarrow> parse env data = Some JsonNull \<Longrightarrow> loadFrom env rd st = (Threw TypeError, st)"
  by (simp add: loadFrom_def)

lemma loadFrom_current:
  "rd = Inr data \<Longrightarrow> parse env data = Some (JsonValue (Some JSON_FORMAT_VERSION) rs) \<Longrightarrow>
   loadFrom env rd st =
     (fst (loadRooms env rs (emit LockAcquire st)),
      emit LockRelease (snd (loadRooms env rs (emit LockAcquire st))))"
  by (simp add: loadFrom_def split: prod.split)

lemma loadFrom_usable:
  "rd = Inr data \<Longrightarrow> parse env data = Some (wellShaped json) \<Longrightarrow> version json = JSON_FORMAT_VERSION \<Longrightarrow>
   loadFrom env rd st
     = (Returned, emit LockRelease (snd (loadRooms env (map (apsnd Some) (rooms json)) (emit LockAcquire st))))"
  using loadFrom_current[of rd data env "map (apsnd Some) (rooms json)" st]
  by (simp add: wellShaped_def loadRooms_returns)

lemma load_cases:
  obtains "unusable env rd"
  | data where "rd = Inr data" "parse env data = Some JsonNull"
  | data rs where "rd = Inr data" "parse env data = Some (JsonValue (Some JSON_FORMAT_VERSION) rs)"
proof (cases rd)
  case (Inl e)
  then show ?thesis using that(1) by (simp add: unusable_def)
next
  case (Inr data)
  show ?thesis
  proof (cases "parse env data")
    case None
    with Inr show ?thesis using that(1) by (simp add: unusable_def)
  next
    case (Some json)
    show ?thesis
    proof (cases json)
      case JsonNull
      with Inr Some show ?thesis using that(2) by simp
    next
      case (JsonValue v rs)
      show ?thesis
      proof (cases "v = Some JSON_FORMAT_VERSION")
        case True
        with Inr Some JsonValue show ?thesis using that(3) by simp
      next
        case False
        with Inr Some JsonValue show ?thesis using that(1) by (simp add: unusable_def)
      qed
    qed
  qed
qed


lemma readFile_onDisk: "readFile (files (onDisk data)) (path (onDisk data)) = Inr data"
  by (simp add: readFile_def onDisk_def freshBoard_def)

lemma sampleParse_texts:
  "parse sampleEnv sampleJsonText = Some (wellShaped sampleDoc)"
  "parse sampleEnv nullText = Some JsonNull"
  "parse sampleEnv noMessagesText = Some (JsonValue (Some 1) [(sampleRoomId, None)])"
  "parse sampleEnv olderText = Some (JsonValue (Some 0) [])"
  "parse sampleEnv cutText = None"
  "parse sampleEnv clashText
     = Some (JsonValue (Some 1)
         [(sampleRoomId, Some \<lparr>qaStartTime = None, messages = [question ''$m1'' [''$x1''] [''$x1'']]\<rparr>)])"
  by (simp_all add: sampleEnv_def sampleParse_def sampleJsonText_def nullText_def noMessagesText_def
        olderText_def cutText_def clashText_def)




lemma map_of_rev_distinct: "distinct (map fst xs) \<Longrightarrow> map_of (rev xs) = map_of xs"
proof (rule ext)
  fix k
  assume d: "distinct (map fst xs)"
  show "map_of (rev xs) k = map_of xs k"
  proof (cases "map_of xs k")
    case None
    then have "k \<notin> fst ` set xs" by (simp add: map_of_eq_None_iff)
    then have "k \<notin> fst ` set (rev xs)" by simp
    then have "map_of (rev xs) k = None" by (simp only: map_of_eq_None_iff not_False_eq_True)
    with None show ?thesis by simp
  next
    case (Some v)
    then have "(k, v) \<in> set xs" by (rule map_of_SomeD)
    with d have "map_of (rev xs) k = Some v" by (simp add: rev_map[symmetric])
    with Some show ?thesis by simp
  qed
qed

text \<open>
  C7. Let the rooms of a board have distinct ids and let \<open>JSON.parse\<close> give back the
  document that \<open>JSON.stringify\<close> was given (as the value of the declared type that
  holds it). Then \<open>save\<close> followed by \<open>load\<close>, on the same
  path and the saved files, returns, and afterwards every saved room is stored as it was
  saved (its countdown, its messages in tracking order, their vote ids) with the view
  computed from it; rooms the loading board had and the snapshot has not are kept. Loaded
  into a board without rooms, as at startup, the snapshot reproduces \<open>byRoom\<close> itself:
  the same rooms in the same order.
\<close>

theorem save_load_roundtrip:
  assumes "distinct (map fst (byRoom st))"
    and "parse env (stringify env \<lparr>version = JSON_FORMAT_VERSION, rooms = byRoom st\<rparr>)
           = Some (wellShaped \<lparr>version = JSON_FORMAT_VERSION, rooms = byRoom st\<rparr>)"
    and "path st0 = path st" and "files st0 = files (snd (save env st))"
  shows "fst (save env st) = Returned \<and> fst (load env st0) = Returned \<and>
    map_of (byRoom (snd (load env st0))) = map_of (byRoom st0) ++ map_of (byRoom st) \<and>
    (byRoom st0 = [] \<longrightarrow> byRoom (snd (load env st0)) = byRoom st) \<and>
    (\<forall>(r, sb) \<in> set (byRoom st).
       map_of (byRoom (snd (load env st0))) r = Some sb \<and>
       getScoreboard (snd (load env st0)) r = Some (rankingView env r (domain st0) sb))"
proof -
  let ?doc = "\<lparr>version = JSON_FORMAT_VERSION, rooms = byRoom st\<rparr>"
  have rd: "readFile (files st0) (path st0) = Inr (stringify env ?doc)"
    using assms(3,4) by (simp add: readFile_def save_eq savedFiles_def snapshotText_def)
  have ld: "load env st0
      = (Returned, emit LockRelease (snd (loadRooms env (map (apsnd Some) (byRoom st)) (emit LockAcquire st0))))"
    unfolding load_def using loadFrom_usable[OF rd assms(2), of st0] by simp
  have rv: "map_of (rev (byRoom st)) = map_of (byRoom st)"
    by (rule map_of_rev_distinct[OF assms(1)])
  have m: "map_of (byRoom (snd (load env st0))) = map_of (byRoom st0) ++ map_of (byRoom st)"
    by (simp add: ld loadRooms_byRoom rv)
  have b: "byRoom (snd (load env st0)) = byRoom st" if "byRoom st0 = []"
    using loadRooms_appends[OF assms(1), of "emit LockAcquire st0" env] that
    by (simp add: ld)
  have c: "map_of (byRoom (snd (load env st0))) r = Some sb \<and>
      getScoreboard (snd (load env st0)) r = Some (rankingView env r (domain st0) sb)"
    if "(r, sb) \<in> set (byRoom st)" for r sb
  proof -
    from that assms(1) have "map_of (byRoom st) r = Some sb"
      by simp
    then show ?thesis
      by (simp add: m) (simp add: ld getScoreboard_def loadRooms_cached rv)
  qed
  from m b c show ?thesis
    by (auto simp: save_eq ld)
qed

text \<open>The sample board, saved and loaded into a fresh board.\<close>

theorem save_load_roundtrip_witness:
  "distinct (map fst (byRoom sampleSaved)) \<and>
   parse sampleEnv (stringify sampleEnv \<lparr>version = JSON_FORMAT_VERSION, rooms = byRoom sampleSaved\<rparr>)
     = Some (wellShaped \<lparr>version = JSON_FORMAT_VERSION, rooms = byRoom sampleSaved\<rparr>) \<and>
   byRoom (freshBoard\<lparr>files := files (snd (save sampleEnv sampleSaved))\<rparr>) = [] \<and>
   byRoom (snd (load sampleEnv (freshBoard\<lparr>files := files (snd (save sampleEnv sampleSaved))\<rparr>)))
     = [(sampleRoomId,
         \<lparr>qaStartTime = Some 1700000000000, messages = [question ''$m1'' [''$u1''] []]\<rparr>)]"
proof -
  have d: "distinct (map fst (byRoom sampleSaved))"
    by (simp add: sampleSaved_def sampleDoc_def)
  have doc: "\<lparr>version = JSON_FORMAT_VERSION, rooms = byRoom sampleSaved\<rparr> = sampleDoc"
    by (simp add: sampleSaved_def sampleDoc_def JSON_FORMAT_VERSION_def)
  have c: "parse sampleEnv (stringify sampleEnv \<lparr>version = JSON_FORMAT_VERSION, rooms = byRoom sampleSaved\<rparr>)
     = Some (wellShaped \<lparr>version = JSON_FORMAT_VERSION, rooms = byRoom sampleSaved\<rparr>)"
    unfolding doc by (simp add: sampleEnv_def sampleParse_def)
  have e: "byRoom (freshBoard\<lparr>files := files (snd (save sampleEnv sampleSaved))\<rparr>) = []"
    "path (freshBoard\<lparr>files := files (snd (save sampleEnv sampleSaved))\<rparr>) = path sampleSaved"
    "files (freshBoard\<lparr>files := files (snd (save sampleEnv sampleSaved))\<rparr>)
       = files (snd (save sampleEnv sampleSaved))"
    by (simp_all add: freshBoard_def sampleSaved_def)
  from save_load_roundtrip[OF d c e(2,3)] d c e(1) show ?thesis
    by (simp add: sampleSaved_def sampleDoc_def)
qed

subsection \<open>Reactions\<close>

lemma find_emptyRoom [simp]: "find P (messages emptyRoom) = None"
  by (simp add: emptyRoom_def)

lemma roomOf_update [simp]:
  "roomOf (st\<lparr>byRoom := AList.update r sb (byRoom st)\<rparr>) r' = (if r' = r then sb else roomOf st r')"
  by (simp add: roomOf_def update_conv')

lemma roomOf_committed [simp]: "roomOf (committed env r sb st) r' = roomOf st r'"
  by (simp add: roomOf_def)

lemma tryAddReaction_filtered:
  "reactionFilter env roomId event = None \<Longrightarrow>
   tryAddReaction env getEvent getUserProfile roomId event st = (Returned, st)"
  by (simp add: tryAddReaction_def)

lemma stored_fields [simp]:
  "path (stored r sb st) = path st" "byRoomCached (stored r sb st) = byRoomCached st"
  "domain (stored r sb st) = domain st" "files (stored r sb st) = files st"
  "trace (stored r sb st) = trace st @ [LockAcquire]"
  "byRoom (stored r sb st) = AList.update r sb (byRoom st)"
  by (simp_all add: stored_def)

lemma commit_stored:
  "release_then_save env (calculateRoom env roomId
      ((ensureRoom roomId (emit LockAcquire st))
         \<lparr>byRoom := AList.update roomId sb (byRoom (ensureRoom roomId (emit LockAcquire st)))\<rparr>))
   = (Returned, committed env roomId sb (stored roomId sb st))"
proof -
  have "(ensureRoom roomId (emit LockAcquire st))
         \<lparr>byRoom := AList.update roomId sb (byRoom (ensureRoom roomId (emit LockAcquire st)))\<rparr>
        = stored roomId sb st"
    using update_ensureRoom[of roomId sb "emit LockAcquire st"] by (simp add: stored_def)
  moreover have "map_of (byRoom (stored roomId sb st)) roomId = Some sb"
    by (simp add: update_conv')
  ultimately show ?thesis
    by (simp add: commit_eq)
qed

lemma tryAddReaction_tracked:
  assumes "reactionFilter env roomId event = Some (isUpvote, target)"
    and "find (\<lambda>m. eventId m = target) (messages (roomOf st roomId)) = Some m"
  shows "tryAddReaction env getEvent getUserProfile roomId event st =
     (Returned, committed env roomId
        ((roomOf st roomId)\<lparr>messages := update_first (\<lambda>m. eventId m = target)
             (pushVote isUpvote (event_id event)) (messages (roomOf st roomId))\<rparr>)
        (stored roomId
           ((roomOf st roomId)\<lparr>messages := update_first (\<lambda>m. eventId m = target)
             (pushVote isUpvote (event_id event)) (messages (roomOf st roomId))\<rparr>) st))"
  using assms by (simp add: tryAddReaction_def Let_def commit_stored)

lemma tryAddReaction_new:
  assumes "reactionFilter env roomId event = Some (isUpvote, target)"
    and "find (\<lambda>m. eventId m = target) (messages (roomOf st roomId)) = None"
    and "usableTarget getEvent = Some (body, sender)"
  shows "tryAddReaction env getEvent getUserProfile roomId event st =
     (Returned, committed env roomId
        ((roomOf st roomId)\<lparr>messages := messages (roomOf st roomId)
             @ [newMessage env getUserProfile isUpvote (event_id event) target body sender]\<rparr>)
        (stored roomId
           ((roomOf st roomId)\<lparr>messages := messages (roomOf st roomId)
             @ [newMessage env getUserProfile isUpvote (event_id event) target body sender]\<rparr>) st))"
proof -
  obtain t where t: "getEvent = Resolved (Some t)" "t_type t = ''m.room.message''"
      "t_msgtype t = Some ''m.text''" "t_body t = Some body" "t_sender t = sender"
    using assms(3)
    by (auto simp: usableTarget_def split: fetched.splits option.splits if_splits)
  from assms(1,2) t show ?thesis
    by (simp add: tryAddReaction_def Let_def commit_stored newMessage_def)
qed

lemma tryAddReaction_dropped:
  assumes "reactionFilter env roomId event = Some (isUpvote, target)"
    and "find (\<lambda>m. eventId m = target) (messages (roomOf st roomId)) = None"
    and "usableTarget getEvent = None"
  shows "tryAddReaction env getEvent getUserProfile roomId event st =
     (if getEvent = Rejected then Threw RequestError else Returned,
      emit LockRelease (ensureRoom roomId (emit LockAcquire st)))"
  using assms
  by (auto simp: tryAddReaction_def Let_def usableTarget_def
        split: fetched.splits option.splits if_splits)

lemma sample_filter:
  "reactionFilter sampleEnv sampleRoomId (reaction rid thumbsUp tg) = Some (True, tg)"
  "reactionFilter sampleEnv sampleRoomId (reaction rid thumbsDown tg) = Some (False, tg)"
  "reactionFilter sampleEnv sampleRoomId (reaction rid ''+1'' tg) = None"
  by (simp_all add: reactionFilter_def sampleEnv_def reaction_def thumbsUp_def thumbsDown_def)

lemma usable_plainText: "usableTarget (plainText body) = Some (body, ''@alice:example.org'')"
  by (simp add: usableTarget_def plainText_def)

lemma roomOf_freshBoard: "roomOf freshBoard r = emptyRoom"
  by (simp add: roomOf_def freshBoard_def)

lemma event_id_reaction [simp]: "event_id (reaction rid emoji tg) = rid"
  by (simp add: reaction_def)

lemma eventId_pushVote [simp]: "eventId (pushVote up rid m) = eventId m"
  by (simp add: pushVote_def)

lemma eventId_addProfile [simp]: "eventId (addProfile env p m) = eventId m"
  by (simp add: addProfile_def Let_def split: fetched.split option.split)

lemma votes_addProfile [simp]:
  "activeUpvoteIds (addProfile env p m) = activeUpvoteIds m"
  "activeDownvoteIds (addProfile env p m) = activeDownvoteIds m"
  by (simp_all add: addProfile_def Let_def split: fetched.split option.split)

lemma eventId_newMessage [simp]: "eventId (newMessage env p up rid tg b s) = tg"
  by (simp add: newMessage_def)

lemma find_update_first:
  "find P xs = Some x \<Longrightarrow> P (f x) \<Longrightarrow> find P (update_first P f xs) = Some (f x)"
  by (induction xs) (auto split: if_splits)

lemma update_first_none: "find P xs = None \<Longrightarrow> update_first P f xs = xs"
  by (induction xs) (auto split: if_splits)

lemma find_snoc: "find P xs = None \<Longrightarrow> find P (xs @ [x]) = (if P x then Some x else None)"
  by (induction xs) (auto split: if_splits)

lemma votesOf_pushVote: "rid \<in> set (votesOf up (pushVote up rid m))"
  by (simp add: votesOf_def pushVote_def)

lemma votesOf_newMessage: "rid \<in> set (votesOf up (newMessage env p up rid tg b s))"
  by (simp add: votesOf_def newMessage_def pushVote_def)

lemma roomOf_stored [simp]: "roomOf (stored r sb st) r' = (if r' = r then sb else roomOf st r')"
  by (simp add: roomOf_def update_conv')

lemma recorded_after:
  assumes f: "reactionFilter env roomId event = Some (isUpvote, target)"
    and r: "tryAddReaction env getEvent getUserProfile roomId event st = (Returned, st1)"
    and m: "find (\<lambda>m. eventId m = target) (messages (roomOf st1 roomId)) = Some m"
  shows "event_id event \<in> set (votesOf isUpvote m)"
proof (cases "find (\<lambda>m. eventId m = target) (messages (roomOf st roomId))")
  case (Some m0)
  then have "eventId m0 = target"
    by (auto dest: find_Some_iff[THEN iffD1])
  with m r Some show ?thesis
    by (auto simp: tryAddReaction_tracked[OF f Some] find_update_first votesOf_pushVote)
next
  case None
  show ?thesis
  proof (cases "usableTarget getEvent")
    case N: None
    from r m None show ?thesis
      by (auto simp: tryAddReaction_dropped[OF f None N])
  next
    case (Some bs)
    then obtain b s where u: "usableTarget getEvent = Some (b, s)" by (cases bs) auto
    from r m None show ?thesis
      by (auto simp: tryAddReaction_new[OF f None u] find_snoc votesOf_newMessage)
  qed
qed

lemma votedOnce_room:
  "byRoom votedOnce = [(sampleRoomId, \<lparr>qaStartTime = None, messages =
     [\<lparr>eventId = ''$m1'', msgText = ''Hi'', senderId = ''@alice:example.org'',
       senderName = None, senderHttpUrl = None, activeUpvoteIds = [''$u1''],
       activeDownvoteIds = []\<rparr>]\<rparr>)]"
proof -
  have n: "find (\<lambda>m. eventId m = ''$m1'') (messages (roomOf freshBoard sampleRoomId)) = None"
    by (simp add: roomOf_freshBoard)
  show ?thesis
    unfolding votedOnce_def tryAddReaction_new[OF sample_filter(1) n usable_plainText]
    by (simp add: roomOf_freshBoard newMessage_def addProfile_def pushVote_def)
      (simp add: freshBoard_def emptyRoom_def)
qed

lemma votedTwice_room:
  "byRoom votedTwice = [(sampleRoomId, \<lparr>qaStartTime = None, messages =
     [\<lparr>eventId = ''$m1'', msgText = ''Hi'', senderId = ''@alice:example.org'',
       senderName = None, senderHttpUrl = None, activeUpvoteIds = [''$u1'', ''$u1''],
       activeDownvoteIds = []\<rparr>]\<rparr>)]"
proof -
  have r: "roomOf votedOnce sampleRoomId = \<lparr>qaStartTime = None, messages =
     [\<lparr>eventId = ''$m1'', msgText = ''Hi'', senderId = ''@alice:example.org'',
       senderName = None, senderHttpUrl = None, activeUpvoteIds = [''$u1''],
       activeDownvoteIds = []\<rparr>]\<rparr>"
    by (simp add: roomOf_def votedOnce_room)
  have t: "find (\<lambda>m. eventId m = ''$m1'') (messages (roomOf votedOnce sampleRoomId))
      = Some \<lparr>eventId = ''$m1'', msgText = ''Hi'', senderId = ''@alice:example.org'',
       senderName = None, senderHttpUrl = None, activeUpvoteIds = [''$u1''],
       activeDownvoteIds = []\<rparr>"
    by (simp add: r)
  show ?thesis
    unfolding votedTwice_def tryAddReaction_tracked[OF sample_filter(1) t]
    by (simp add: r pushVote_def votedOnce_room)
qed

text \<open>
  C9, as the code has it. A reaction passes the guards of \<open>tryAddReaction\<close> exactly when
  the room is an auditorium, the event carries a relation of type \<open>m.annotation\<close>, the
  relation's key is a variant of one of the two vote emoji, and the relation's target id
  is a string, the empty string included; the vote is an upvote exactly when the key is a
  variant of the thumbs-up. An event that fails a guard is dropped with the state
  untouched, so the lock is never taken; an event that passes takes the lock first.
\<close>

theorem reaction_classification:
  "(reactionFilter env roomId event = Some (isUpvote, target) \<longleftrightarrow>
      roomId \<in> set (storedAuditoriums env) \<and>
      (\<exists>rel. relates_to event = Some rel \<and> rel_type rel = Some ''m.annotation'' \<and>
         (isEmojiVariant env thumbsUp (key rel) \<or> isEmojiVariant env thumbsDown (key rel)) \<and>
         rel_event_id rel = Some target \<and> isUpvote = isEmojiVariant env thumbsUp (key rel))) \<and>
   (reactionFilter env roomId event = None \<longrightarrow>
      tryAddReaction env getEvent getUserProfile roomId event st = (Returned, st)) \<and>
   (reactionFilter env roomId event \<noteq> None \<longrightarrow>
      (\<exists>rest. trace (snd (tryAddReaction env getEvent getUserProfile roomId event st))
                = trace st @ LockAcquire # rest))"
proof -
  have a: "reactionFilter env roomId event = Some (isUpvote, target) \<longleftrightarrow>
      roomId \<in> set (storedAuditoriums env) \<and>
      (\<exists>rel. relates_to event = Some rel \<and> rel_type rel = Some ''m.annotation'' \<and>
         (isEmojiVariant env thumbsUp (key rel) \<or> isEmojiVariant env thumbsDown (key rel)) \<and>
         rel_event_id rel = Some target \<and> isUpvote = isEmojiVariant env thumbsUp (key rel))"
    by (auto simp: reactionFilter_def Let_def split: option.splits)
  have c: "\<exists>rest. trace (snd (tryAddReaction env getEvent getUserProfile roomId event st))
                = trace st @ LockAcquire # rest"
    if "reactionFilter env roomId event \<noteq> None"
  proof -
    from that obtain up tg where f: "reactionFilter env roomId event = Some (up, tg)"
      by auto
    show ?thesis
    proof (cases "find (\<lambda>m. eventId m = tg) (messages (roomOf st roomId))")
      case (Some m)
      show ?thesis
        by (simp add: tryAddReaction_tracked[OF f Some] committed_def)
    next
      case None
      show ?thesis
      proof (cases "usableTarget getEvent")
        case N: None
        show ?thesis
          by (simp add: tryAddReaction_dropped[OF f None N])
      next
        case (Some bs)
        then obtain b s where "usableTarget getEvent = Some (b, s)" by (cases bs) auto
        from tryAddReaction_new[OF f None this] show ?thesis
          by (simp add: committed_def)
      qed
    qed
  qed
  from a c show ?thesis
    by (simp add: tryAddReaction_filtered)
qed

text \<open>
  An upvote whose target id is the empty string is not dropped: it passes the guards and
  the lock is taken. If the fetch for the empty id is rejected, the fresh board is left
  with an empty room; if it gives a plain-text message, the message is tracked under the
  empty id.
\<close>

theorem empty_target_counterexample:
  "relates_to (reaction ''$u1'' thumbsUp '''')
     = Some \<lparr>rel_type = Some ''m.annotation'', key = Some thumbsUp, rel_event_id = Some ''''\<rparr> \<and>
   reactionFilter sampleEnv sampleRoomId (reaction ''$u1'' thumbsUp '''') = Some (True, '''') \<and>
   byRoom freshBoard = [] \<and> trace freshBoard = [] \<and>
   byRoom (snd (tryAddReaction sampleEnv Rejected Rejected sampleRoomId
                  (reaction ''$u1'' thumbsUp '''') freshBoard))
     = [(sampleRoomId, \<lparr>qaStartTime = None, messages = []\<rparr>)] \<and>
   trace (snd (tryAddReaction sampleEnv Rejected Rejected sampleRoomId
                  (reaction ''$u1'' thumbsUp '''') freshBoard))
     = [LockAcquire, LockRelease] \<and>
   byRoom (snd (tryAddReaction sampleEnv (plainText ''Hi'') Rejected sampleRoomId
                  (reaction ''$u1'' thumbsUp '''') freshBoard))
     = [(sampleRoomId,
         \<lparr>qaStartTime = None,
          messages = [\<lparr>eventId = '''', msgText = ''Hi'', senderId = ''@alice:example.org'',
                       senderName = None, senderHttpUrl = None, activeUpvoteIds = [''$u1''],
                       activeDownvoteIds = []\<rparr>]\<rparr>)] \<and>
   take 1 (trace (snd (tryAddReaction sampleEnv (plainText ''Hi'') Rejected sampleRoomId
                  (reaction ''$u1'' thumbsUp '''') freshBoard)))
     = [LockAcquire]"
proof -
  have f: "reactionFilter sampleEnv sampleRoomId (reaction ''$u1'' thumbsUp '''') = Some (True, '''')"
    by (rule sample_filter)
  have n: "find (\<lambda>m. eventId m = '''') (messages (roomOf freshBoard sampleRoomId)) = None"
    by (simp add: roomOf_freshBoard)
  have u: "usableTarget Rejected = None"
    by (simp add: usableTarget_def)
  have r: "byRoom (snd (tryAddReaction sampleEnv Rejected Rejected sampleRoomId
                  (reaction ''$u1'' thumbsUp '''') freshBoard))
     = [(sampleRoomId, \<lparr>qaStartTime = None, messages = []\<rparr>)]"
    "trace (snd (tryAddReaction sampleEnv Rejected Rejected sampleRoomId
                  (reaction ''$u1'' thumbsUp '''') freshBoard))
     = [LockAcquire, LockRelease]"
    unfolding tryAddReaction_dropped[OF f n u]
    by (simp_all add: ensureRoom_def) (simp_all add: freshBoard_def emptyRoom_def)
  have t: "byRoom (snd (tryAddReaction sampleEnv (plainText ''Hi'') Rejected sampleRoomId
                  (reaction ''$u1'' thumbsUp '''') freshBoard))
     = [(sampleRoomId,
         \<lparr>qaStartTime = None,
          messages = [\<lparr>eventId = '''', msgText = ''Hi'', senderId = ''@alice:example.org'',
                       senderName = None, senderHttpUrl = None, activeUpvoteIds = [''$u1''],
                       activeDownvoteIds = []\<rparr>]\<rparr>)]"
    "take 1 (trace (snd (tryAddReaction sampleEnv (plainText ''Hi'') Rejected sampleRoomId
                  (reaction ''$u1'' thumbsUp '''') freshBoard)))
     = [LockAcquire]"
    unfolding tryAddReaction_new[OF f n usable_plainText]
    by (simp_all add: roomOf_freshBoard newMessage_def addProfile_def pushVote_def committed_def)
      (simp_all add: freshBoard_def emptyRoom_def)
  from f r t show ?thesis
    by (simp add: reaction_def freshBoard_def)
qed

text \<open>
  A thumbs-up with a skin tone passes as an upvote; \<open>+1\<close> is dropped with the board
  untouched; a thumbs-down takes the lock.
\<close>

theorem reaction_classification_witness:
  "reactionFilter sampleEnv sampleRoomId (reaction ''$u1'' (thumbsUp @ [CHR 0xF0, CHR 0x9F, CHR 0x8F, CHR 0xBD]) ''$m1'')
     = Some (True, ''$m1'') \<and>
   reactionFilter sampleEnv sampleRoomId (reaction ''$u1'' ''+1'' ''$m1'') = None \<and>
   tryAddReaction sampleEnv (plainText ''Hi'') Rejected sampleRoomId (reaction ''$u1'' ''+1'' ''$m1'') freshBoard
     = (Returned, freshBoard) \<and>
   reactionFilter sampleEnv sampleRoomId (reaction ''$u1'' thumbsDown ''$m1'') \<noteq> None \<and>
   take 1 (trace (snd (tryAddReaction sampleEnv (plainText ''Hi'') Rejected sampleRoomId
                         (reaction ''$u1'' thumbsDown ''$m1'') freshBoard)))
     = [LockAcquire]"
proof -
  have v: "reactionFilter sampleEnv sampleRoomId
      (reaction ''$u1'' (thumbsUp @ [CHR 0xF0, CHR 0x9F, CHR 0x8F, CHR 0xBD]) ''$m1'') = Some (True, ''$m1'')"
    by (simp add: reactionFilter_def sampleEnv_def reaction_def thumbsUp_def thumbsDown_def)
  have d: "reactionFilter sampleEnv sampleRoomId (reaction ''$u1'' thumbsDown ''$m1'') \<noteq> None"
    by (simp add: sample_filter)
  from reaction_classification[of sampleEnv sampleRoomId "reaction ''$u1'' ''+1'' ''$m1''" True "''$m1''"
         "plainText ''Hi''" Rejected freshBoard]
    reaction_classification[of sampleEnv sampleRoomId "reaction ''$u1'' thumbsDown ''$m1''" False "''$m1''"
         "plainText ''Hi''" Rejected freshBoard]
    v d sample_filter(3)[of "''$u1''" "''$m1''"]
  show ?thesis
    by (auto simp: freshBoard_def)
qed

text \<open>
  The same upvote handled twice: the id stands twice in the list and the score shown is 2,
  not 1.
\<close>

theorem replay_counterexample:
  "votedOnce = snd (tryAddReaction sampleEnv (plainText ''Hi'') Rejected sampleRoomId
                      (reaction ''$u1'' thumbsUp ''$m1'') freshBoard) \<and>
   votedTwice = snd (tryAddReaction sampleEnv (plainText ''Hi'') Rejected sampleRoomId
                       (reaction ''$u1'' thumbsUp ''$m1'') votedOnce) \<and>
   map (map activeUpvoteIds \<circ> messages \<circ> snd) (byRoom votedOnce) = [[[''$u1'']]] \<and>
   map (map activeUpvoteIds \<circ> messages \<circ> snd) (byRoom votedTwice) = [[[''$u1'', ''$u1'']]] \<and>
   byRoom votedTwice \<noteq> byRoom votedOnce \<and>
   map_option (map upvotes \<circ> ordered) (getScoreboard votedOnce sampleRoomId) = Some [1] \<and>
   map_option (map upvotes \<circ> ordered) (getScoreboard votedTwice sampleRoomId) = Some [2]"
proof -
  have n: "find (\<lambda>m. eventId m = ''$m1'') (messages (roomOf freshBoard sampleRoomId)) = None"
    by (simp add: roomOf_freshBoard)
  have 1: "map_option (map upvotes \<circ> ordered) (getScoreboard votedOnce sampleRoomId) = Some [1]"
    unfolding votedOnce_def tryAddReaction_new[OF sample_filter(1) n usable_plainText]
    by (simp add: getScoreboard_def update_conv' rankingView_sort_key roomOf_freshBoard newMessage_def
          addProfile_def pushVote_def displayRecord_def emptyRoom_def)
  have r: "roomOf votedOnce sampleRoomId = \<lparr>qaStartTime = None, messages =
     [\<lparr>eventId = ''$m1'', msgText = ''Hi'', senderId = ''@alice:example.org'',
       senderName = None, senderHttpUrl = None, activeUpvoteIds = [''$u1''],
       activeDownvoteIds = []\<rparr>]\<rparr>"
    by (simp add: roomOf_def votedOnce_room)
  have t: "find (\<lambda>m. eventId m = ''$m1'') (messages (roomOf votedOnce sampleRoomId))
      = Some \<lparr>eventId = ''$m1'', msgText = ''Hi'', senderId = ''@alice:example.org'',
       senderName = None, senderHttpUrl = None, activeUpvoteIds = [''$u1''],
       activeDownvoteIds = []\<rparr>"
    by (simp add: r)
  have 2: "map_option (map upvotes \<circ> ordered) (getScoreboard votedTwice sampleRoomId) = Some [2]"
    unfolding votedTwice_def tryAddReaction_tracked[OF sample_filter(1) t]
    by (simp add: getScoreboard_def update_conv' rankingView_sort_key r pushVote_def displayRecord_def)
  from 1 2 show ?thesis
    by (simp add: votedOnce_room votedTwice_room) (simp add: votedOnce_def votedTwice_def)
qed

text \<open>
  C2, as the code has it. Once the target of a reaction is tracked, as it is after a
  first handling that returned and did not drop the reaction, the reaction's id stands in
  the target's vote list, and handling the same event again returns and appends the id
  once more to that list: the first message with the target's id is changed by this one
  push and nothing else in the room, no other room is changed, the other vote list and
  the set of ids in the list stay as they are, and the score moves by one more step in
  the direction of the vote.
\<close>

theorem tryAddReaction_repeated:
  assumes "reactionFilter env roomId event = Some (isUpvote, target)"
    and "tryAddReaction env getEvent getUserProfile roomId event st = (Returned, st1)"
    and "find (\<lambda>m. eventId m = target) (messages (roomOf st1 roomId)) = Some m"
  shows "event_id event \<in> set (votesOf isUpvote m) \<and>
    fst (tryAddReaction env getEvent' getUserProfile' roomId event st1) = Returned \<and>
    roomOf (snd (tryAddReaction env getEvent' getUserProfile' roomId event st1)) roomId
      = (roomOf st1 roomId)\<lparr>messages := update_first (\<lambda>m. eventId m = target)
           (pushVote isUpvote (event_id event)) (messages (roomOf st1 roomId))\<rparr> \<and>
    find (\<lambda>m. eventId m = target)
      (messages (roomOf (snd (tryAddReaction env getEvent' getUserProfile' roomId event st1)) roomId))
      = Some (pushVote isUpvote (event_id event) m) \<and>
    (\<forall>r. r \<noteq> roomId \<longrightarrow>
       map_of (byRoom (snd (tryAddReaction env getEvent' getUserProfile' roomId event st1))) r
         = map_of (byRoom st1) r) \<and>
    votesOf isUpvote (pushVote isUpvote (event_id event) m) = votesOf isUpvote m @ [event_id event] \<and>
    votesOf (\<not> isUpvote) (pushVote isUpvote (event_id event) m) = votesOf (\<not> isUpvote) m \<and>
    set (votesOf isUpvote (pushVote isUpvote (event_id event) m)) = set (votesOf isUpvote m) \<and>
    upvotes (displayRecord env roomId (domain st1) (pushVote isUpvote (event_id event) m))
      = upvotes (displayRecord env roomId (domain st1) m) + (if isUpvote then 1 else - 1)"
proof -
  have 1: "event_id event \<in> set (votesOf isUpvote m)"
    by (rule recorded_after[OF assms])
  have 2: "find (\<lambda>m. eventId m = target) (update_first (\<lambda>m. eventId m = target)
           (pushVote isUpvote (event_id event)) (messages (roomOf st1 roomId)))
      = Some (pushVote isUpvote (event_id event) m)"
    using assms(3) by (auto intro!: find_update_first dest: find_Some_iff[THEN iffD1])
  from 1 2 show ?thesis
    by (auto simp: tryAddReaction_tracked[OF assms(1,3)] update_conv' votesOf_def pushVote_def
          displayRecord_def)
qed

text \<open>The sample upvote, handled on the fresh board and then again.\<close>

theorem tryAddReaction_repeated_witness:
  "reactionFilter sampleEnv sampleRoomId (reaction ''$u1'' thumbsUp ''$m1'') = Some (True, ''$m1'') \<and>
   tryAddReaction sampleEnv (plainText ''Hi'') Rejected sampleRoomId (reaction ''$u1'' thumbsUp ''$m1'')
     freshBoard = (Returned, votedOnce) \<and>
   find (\<lambda>m. eventId m = ''$m1'') (messages (roomOf votedOnce sampleRoomId))
     = Some \<lparr>eventId = ''$m1'', msgText = ''Hi'', senderId = ''@alice:example.org'',
             senderName = None, senderHttpUrl = None, activeUpvoteIds = [''$u1''],
             activeDownvoteIds = []\<rparr> \<and>
   find (\<lambda>m. eventId m = ''$m1'') (messages (roomOf votedTwice sampleRoomId))
     = Some \<lparr>eventId = ''$m1'', msgText = ''Hi'', senderId = ''@alice:example.org'',
             senderName = None, senderHttpUrl = None, activeUpvoteIds = [''$u1'', ''$u1''],
             activeDownvoteIds = []\<rparr>"
proof -
  let ?m = "\<lparr>eventId = ''$m1'', msgText = ''Hi'', senderId = ''@alice:example.org'',
             senderName = None, senderHttpUrl = None, activeUpvoteIds = [''$u1''],
             activeDownvoteIds = []\<rparr>"
  have n: "find (\<lambda>m. eventId m = ''$m1'') (messages (roomOf freshBoard sampleRoomId)) = None"
    by (simp add: roomOf_freshBoard)
  have a: "tryAddReaction sampleEnv (plainText ''Hi'') Rejected sampleRoomId
      (reaction ''$u1'' thumbsUp ''$m1'') freshBoard = (Returned, votedOnce)"
    unfolding votedOnce_def tryAddReaction_new[OF sample_filter(1) n usable_plainText] by simp
  have t: "find (\<lambda>m. eventId m = ''$m1'') (messages (roomOf votedOnce sampleRoomId)) = Some ?m"
    by (simp add: roomOf_def votedOnce_room)
  from tryAddReaction_repeated[OF sample_filter(1) a t, of "plainText ''Hi''" Rejected]
  have "find (\<lambda>m. eventId m = ''$m1'') (messages (roomOf votedTwice sampleRoomId))
      = Some (pushVote True ''$u1'' ?m)"
    unfolding votedTwice_def event_id_reaction by blast
  with a t show ?thesis
    by (simp add: sample_filter pushVote_def)
qed

text \<open>
  What \<open>tryAddReaction\<close> does with the two fetches, for a reaction that passes the guards
  and whose target is not tracked. When the fetch of the target gives no plain-text
  message (the request is rejected, or resolves to nothing or to another kind of event),
  the reaction is dropped:
  every room keeps its countdown and its messages, no view and no file changes, and the
  only change to \<open>byRoom\<close> is that the room, if it was untracked, now has the empty
  scoreboard; when the request resolved, the call returns. When the fetch gives a
  plain-text message and the profile request is rejected, the call returns and the message
  is tracked with the vote and without display name and avatar.
\<close>

theorem tryAddReaction_fetch_failures:
  assumes "reactionFilter env roomId event = Some (isUpvote, target)"
    and "find (\<lambda>m. eventId m = target) (messages (roomOf st roomId)) = None"
  shows "(usableTarget getEvent = None \<longrightarrow>
      (\<forall>r. roomOf (snd (tryAddReaction env getEvent getUserProfile roomId event st)) r = roomOf st r) \<and>
      map_of (byRoom (snd (tryAddReaction env getEvent getUserProfile roomId event st))) roomId
        = Some (roomOf st roomId) \<and>
      (\<forall>r. r \<noteq> roomId \<longrightarrow>
         map_of (byRoom (snd (tryAddReaction env getEvent getUserProfile roomId event st))) r
           = map_of (byRoom st) r) \<and>
      byRoomCached (snd (tryAddReaction env getEvent getUserProfile roomId event st)) = byRoomCached st \<and>
      files (snd (tryAddReaction env getEvent getUserProfile roomId event st)) = files st \<and>
      (getEvent \<noteq> Rejected \<longrightarrow>
         fst (tryAddReaction env getEvent getUserProfile roomId event st) = Returned)) \<and>
    (usableTarget getEvent = Some (body, sender) \<longrightarrow>
      fst (tryAddReaction env getEvent Rejected roomId event st) = Returned \<and>
      messages (roomOf (snd (tryAddReaction env getEvent Rejected roomId event st)) roomId)
        = messages (roomOf st roomId)
          @ [pushVote isUpvote (event_id event)
               \<lparr>eventId = target, msgText = body, senderId = sender, senderName = None,
                senderHttpUrl = None, activeUpvoteIds = [], activeDownvoteIds = []\<rparr>])"
proof -
  have d: ?thesis if n: "usableTarget getEvent = None"
    using n by (simp add: tryAddReaction_dropped[OF assms n] ensureRoom_lookup)
  have p: ?thesis if u: "usableTarget getEvent = Some (b, s)" for b s
    using u by (auto simp: tryAddReaction_new[OF assms u] newMessage_def addProfile_def)
  from d p show ?thesis
    by (cases "usableTarget getEvent") auto
qed

text \<open>
  C8. The request for the target is awaited inside \<open>try ... finally\<close> with no \<open>catch\<close>
  (the request for the profile, a few lines on, has one). So when it is rejected, the
  rejection is thrown to the caller once \<open>finally\<close> has released the lock. In the sample
  room, tracked with three messages, an upvote of a fourth, untracked message whose fetch
  is rejected throws and leaves rooms, views and files as they were; the same upvote with
  a fetch that resolves to nothing returns and leaves the same state. On the fresh board
  the rejected fetch throws as well, and the room, untracked before, is left with the empty
  scoreboard that the operation creates on demand.
\<close>

theorem rejected_fetch_thrown:
  "reactionFilter sampleEnv sampleRoomId (reaction ''$u1'' thumbsUp ''$m9'') = Some (True, ''$m9'') \<and>
   map eventId (messages (roomOf twoRooms sampleRoomId)) = [''$m0'', ''$m1'', ''$m2''] \<and>
   tryAddReaction sampleEnv Rejected Rejected sampleRoomId (reaction ''$u1'' thumbsUp ''$m9'') twoRooms
     = (Threw RequestError, twoRooms\<lparr>trace := [LockAcquire, LockRelease]\<rparr>) \<and>
   tryAddReaction sampleEnv (Resolved None) Rejected sampleRoomId (reaction ''$u1'' thumbsUp ''$m9'') twoRooms
     = (Returned, twoRooms\<lparr>trace := [LockAcquire, LockRelease]\<rparr>) \<and>
   fst (tryAddReaction sampleEnv Rejected Rejected sampleRoomId (reaction ''$u1'' thumbsUp ''$m1'')
          freshBoard) = Threw RequestError \<and>
   byRoom (snd (tryAddReaction sampleEnv Rejected Rejected sampleRoomId
                  (reaction ''$u1'' thumbsUp ''$m1'') freshBoard))
     = [(sampleRoomId, \<lparr>qaStartTime = None, messages = []\<rparr>)]"
proof -
  have r: "roomOf twoRooms sampleRoomId = scenarioD_room"
    by (simp add: roomOf_def twoRooms_def freshBoard_def)
  have n: "find (\<lambda>m. eventId m = ''$m9'') (messages (roomOf twoRooms sampleRoomId)) = None"
    by (simp add: r scenarioD_room_def question_def)
  have ids: "map eventId (messages (roomOf twoRooms sampleRoomId)) = [''$m0'', ''$m1'', ''$m2'']"
    by (simp add: r scenarioD_room_def question_def)
  have f: "reactionFilter sampleEnv sampleRoomId (reaction ''$u1'' thumbsUp ''$m9'') = Some (True, ''$m9'')"
    by (rule sample_filter)
  have u: "usableTarget Rejected = None" "usableTarget (Resolved None) = None"
    by (simp_all add: usableTarget_def)
  have e: "emit LockRelease (ensureRoom sampleRoomId (emit LockAcquire twoRooms))
      = twoRooms\<lparr>trace := [LockAcquire, LockRelease]\<rparr>"
    by (simp add: ensureRoom_def emit_def twoRooms_def freshBoard_def)
  have 1: "tryAddReaction sampleEnv Rejected Rejected sampleRoomId (reaction ''$u1'' thumbsUp ''$m9'') twoRooms
     = (Threw RequestError, twoRooms\<lparr>trace := [LockAcquire, LockRelease]\<rparr>)"
    unfolding tryAddReaction_dropped[OF f n u(1)] e by simp
  have 2: "tryAddReaction sampleEnv (Resolved None) Rejected sampleRoomId (reaction ''$u1'' thumbsUp ''$m9'') twoRooms
     = (Returned, twoRooms\<lparr>trace := [LockAcquire, LockRelease]\<rparr>)"
    unfolding tryAddReaction_dropped[OF f n u(2)] e by simp
  have n0: "find (\<lambda>m. eventId m = ''$m1'') (messages (roomOf freshBoard sampleRoomId)) = None"
    by (simp add: roomOf_freshBoard)
  have f0: "reactionFilter sampleEnv sampleRoomId (reaction ''$u1'' thumbsUp ''$m1'') = Some (True, ''$m1'')"
    by (rule sample_filter)
  have 3: "fst (tryAddReaction sampleEnv Rejected Rejected sampleRoomId (reaction ''$u1'' thumbsUp ''$m1'')
          freshBoard) = Threw RequestError"
    "byRoom (snd (tryAddReaction sampleEnv Rejected Rejected sampleRoomId
                  (reaction ''$u1'' thumbsUp ''$m1'') freshBoard))
     = [(sampleRoomId, \<lparr>qaStartTime = None, messages = []\<rparr>)]"
    unfolding tryAddReaction_dropped[OF f0 n0 u(1)]
    by (simp_all add: ensureRoom_def) (simp add: freshBoard_def emptyRoom_def)
  from f ids 1 2 3 show ?thesis
    by (intro conjI)
qed

text \<open>
  In a tracked room, a fetch that resolves to nothing leaves \<open>byRoom\<close> as it is; a
  plain-text target with a rejected profile request is appended to the room's messages.
\<close>

theorem tryAddReaction_fetch_failures_witness:
  "reactionFilter sampleEnv sampleRoomId (reaction ''$u1'' thumbsUp ''$m9'') = Some (True, ''$m9'') \<and>
   find (\<lambda>m. eventId m = ''$m9'') (messages (roomOf twoRooms sampleRoomId)) = None \<and>
   usableTarget (Resolved None) = None \<and>
   Resolved None \<noteq> (Rejected :: target_event option fetched) \<and>
   fst (tryAddReaction sampleEnv (Resolved None) Rejected sampleRoomId
          (reaction ''$u1'' thumbsUp ''$m9'') twoRooms) = Returned \<and>
   byRoom (snd (tryAddReaction sampleEnv (Resolved None) Rejected sampleRoomId
          (reaction ''$u1'' thumbsUp ''$m9'') twoRooms)) = byRoom twoRooms \<and>
   usableTarget (plainText ''Hi'') = Some (''Hi'', ''@alice:example.org'') \<and>
   messages (roomOf (snd (tryAddReaction sampleEnv (plainText ''Hi'') Rejected sampleRoomId
          (reaction ''$u1'' thumbsUp ''$m9'') twoRooms)) sampleRoomId)
     = messages scenarioD_room
       @ [\<lparr>eventId = ''$m9'', msgText = ''Hi'', senderId = ''@alice:example.org'', senderName = None,
           senderHttpUrl = None, activeUpvoteIds = [''$u1''], activeDownvoteIds = []\<rparr>]"
proof -
  have r: "roomOf twoRooms sampleRoomId = scenarioD_room"
    by (simp add: roomOf_def twoRooms_def freshBoard_def)
  have n: "find (\<lambda>m. eventId m = ''$m9'') (messages (roomOf twoRooms sampleRoomId)) = None"
    by (simp add: r scenarioD_room_def question_def)
  have f: "reactionFilter sampleEnv sampleRoomId (reaction ''$u1'' thumbsUp ''$m9'') = Some (True, ''$m9'')"
    by (rule sample_filter)
  have u: "usableTarget (Resolved None) = None"
    by (simp add: usableTarget_def)
  have b: "byRoom (snd (tryAddReaction sampleEnv (Resolved None) Rejected sampleRoomId
          (reaction ''$u1'' thumbsUp ''$m9'') twoRooms)) = byRoom twoRooms"
    unfolding tryAddReaction_dropped[OF f n u]
    by (simp add: ensureRoom_def twoRooms_def freshBoard_def)
  from tryAddReaction_fetch_failures[OF f n, of "Resolved None" Rejected "''Hi''" "''@alice:example.org''"]
    tryAddReaction_fetch_failures[OF f n, of "plainText ''Hi''" Rejected "''Hi''" "''@alice:example.org''"]
    n u b usable_plainText[of "''Hi''"] r
  show ?thesis
    by (simp add: f pushVote_def)
qed

subsection \<open>The invariant of the ledger\<close>

lemma stored_alt: "stored r sb st = (emit LockAcquire st)\<lparr>byRoom := AList.update r sb (byRoom st)\<rparr>"
  by (simp add: stored_def ensureRoom_def split: option.split)

lemma commit_stored':
  "release_then_save env (calculateRoom env roomId
      ((emit LockAcquire st)\<lparr>byRoom := AList.update roomId sb (byRoom st)\<rparr>))
   = (Returned, committed env roomId sb (stored roomId sb st))"
proof -
  have "map_of (byRoom (stored roomId sb st)) roomId = Some sb"
    by (simp add: update_conv')
  then show ?thesis
    by (simp add: commit_eq stored_alt[symmetric])
qed

lemma resetScoreboard_eq:
  "resetScoreboard env roomId st = (Returned, committed env roomId emptyRoom (stored roomId emptyRoom st))"
  by (simp add: resetScoreboard_def Let_def commit_stored')

lemma showQACountdown_stored:
  "showQACountdown env roomId t st =
     (Returned, committed env roomId ((roomOf st roomId)\<lparr>qaStartTime := Some t\<rparr>)
        (stored roomId ((roomOf st roomId)\<lparr>qaStartTime := Some t\<rparr>) st))"
  by (simp add: showQACountdown_eq stored_def)

lemma tryRemoveReaction_eq:
  "tryRemoveReaction env roomId event st =
     (case redactsOf env roomId event of
        None \<Rightarrow> (Returned, st)
      | Some r \<Rightarrow>
          (case map_of (byRoom st) roomId of
             None \<Rightarrow> (Returned, emit LockRelease (emit LockAcquire st))
           | Some sb \<Rightarrow>
               if find (\<lambda>m. r \<in> set (activeUpvoteIds m)) (messages sb) = None \<and>
                  find (\<lambda>m. r \<in> set (activeDownvoteIds m)) (messages sb) = None
               then (Returned, emit LockRelease (emit LockAcquire st))
               else (Returned, committed env roomId (sb\<lparr>messages := unvoted r (messages sb)\<rparr>)
                       (stored roomId (sb\<lparr>messages := unvoted r (messages sb)\<rparr>) st))))"
  by (simp add: tryRemoveReaction_def Let_def commit_stored' unvoted_def split: option.split)

lemma tryRemoveMessage_eq:
  "tryRemoveMessage env roomId event st =
     (case redactsOf env roomId event of
        None \<Rightarrow> (Returned, st)
      | Some r \<Rightarrow>
          (case map_of (byRoom st) roomId of
             None \<Rightarrow> (Returned, emit LockRelease (emit LockAcquire st))
           | Some sb \<Rightarrow>
               (case find (\<lambda>m. eventId m = r) (messages sb) of
                  None \<Rightarrow> (Returned, emit LockRelease (emit LockAcquire st))
                | Some _ \<Rightarrow>
                    (Returned, committed env roomId (sb\<lparr>messages := remove_first (\<lambda>m. eventId m = r) (messages sb)\<rparr>)
                       (stored roomId (sb\<lparr>messages := remove_first (\<lambda>m. eventId m = r) (messages sb)\<rparr>) st)))))"
  by (simp add: tryRemoveMessage_def Let_def commit_stored' split: option.split)

lemma inv_emit [simp]: "ledgerInvariant env (emit e st) = ledgerInvariant env st"
  by (simp add: ledgerInvariant_def getScoreboard_def)

lemma votesDisjoint_emptyRoom [simp]: "votesDisjoint emptyRoom"
  by (simp add: votesDisjoint_def emptyRoom_def)

lemma votesDisjoint_countdown [simp]: "votesDisjoint (sb\<lparr>qaStartTime := t\<rparr>) = votesDisjoint sb"
  by (simp add: votesDisjoint_def)

lemma inv_room: "ledgerInvariant env st \<Longrightarrow> votesDisjoint (roomOf st r)"
  by (auto simp: ledgerInvariant_def roomOf_def split: option.splits)

lemma inv_room': "ledgerInvariant env st \<Longrightarrow> map_of (byRoom st) r = Some sb \<Longrightarrow> votesDisjoint sb"
  using inv_room[of env st r] by (simp add: roomOf_def)

lemma inv_set:
  assumes "ledgerInvariant env st" and "votesDisjoint sb"
    and "byRoom st' = AList.update r sb (byRoom st)"
    and "byRoomCached st' = AList.update r (rankingView env r (domain st) sb) (byRoomCached st)"
    and "domain st' = domain st"
  shows "ledgerInvariant env st'"
  using assms by (simp add: ledgerInvariant_def getScoreboard_def update_conv')

lemma inv_commit:
  "ledgerInvariant env st \<Longrightarrow> votesDisjoint sb \<Longrightarrow>
   ledgerInvariant env (committed env r sb (stored r sb st))"
  by (erule inv_set) simp_all

lemma inv_ensure: "ledgerInvariant env st \<Longrightarrow> ledgerInvariant env (ensureRoom r st)"
  by (auto simp: ledgerInvariant_def ensureRoom_lookup roomOf_def getScoreboard_def
        split: option.splits)

lemma set_update_first:
  "set (update_first P f xs) \<subseteq> set xs \<union> (case find P xs of None \<Rightarrow> {} | Some x \<Rightarrow> {f x})"
  by (induction xs) (auto split: option.splits)

lemma set_remove_first: "set (remove_first P xs) \<subseteq> set xs"
  by (induction xs) auto

lemma find_mem: "find P xs = Some x \<Longrightarrow> x \<in> set xs"
  by (induction xs) (auto split: if_splits)

lemma votesDisjoint_update_first:
  assumes "votesDisjoint sb"
    and "\<And>m. find P (messages sb) = Some m \<Longrightarrow>
           set (activeUpvoteIds (f m)) \<inter> set (activeDownvoteIds (f m)) = {}"
  shows "votesDisjoint (sb\<lparr>messages := update_first P f (messages sb)\<rparr>)"
  unfolding votesDisjoint_def
proof
  fix m assume "m \<in> set (messages (sb\<lparr>messages := update_first P f (messages sb)\<rparr>))"
  then have "m \<in> set (messages sb) \<union> (case find P (messages sb) of None \<Rightarrow> {} | Some x \<Rightarrow> {f x})"
    using set_update_first[of P f "messages sb"] by auto
  with assms show "set (activeUpvoteIds m) \<inter> set (activeDownvoteIds m) = {}"
    by (auto simp: votesDisjoint_def split: option.splits)
qed

lemma votesDisjoint_unvoted:
  assumes "votesDisjoint sb"
  shows "votesDisjoint (sb\<lparr>messages := unvoted r (messages sb)\<rparr>)"
proof -
  let ?sb1 = "sb\<lparr>messages := update_first (\<lambda>m. r \<in> set (activeUpvoteIds m))
          (\<lambda>m. m\<lparr>activeUpvoteIds := remove1 r (activeUpvoteIds m)\<rparr>) (messages sb)\<rparr>"
  have 1: "votesDisjoint ?sb1"
  proof (rule votesDisjoint_update_first[OF assms])
    fix m assume "find (\<lambda>m. r \<in> set (activeUpvoteIds m)) (messages sb) = Some m"
    then have "m \<in> set (messages sb)" by (rule find_mem)
    with assms have "set (activeUpvoteIds m) \<inter> set (activeDownvoteIds m) = {}"
      by (simp add: votesDisjoint_def)
    then show "set (activeUpvoteIds (m\<lparr>activeUpvoteIds := remove1 r (activeUpvoteIds m)\<rparr>))
        \<inter> set (activeDownvoteIds (m\<lparr>activeUpvoteIds := remove1 r (activeUpvoteIds m)\<rparr>)) = {}"
      using set_remove1_subset[of r "activeUpvoteIds m"] by auto
  qed
  have "votesDisjoint (?sb1\<lparr>messages := update_first (\<lambda>m. r \<in> set (activeDownvoteIds m))
          (\<lambda>m. m\<lparr>activeDownvoteIds := remove1 r (activeDownvoteIds m)\<rparr>) (messages ?sb1)\<rparr>)"
  proof (rule votesDisjoint_update_first[OF 1])
    fix m assume "find (\<lambda>m. r \<in> set (activeDownvoteIds m)) (messages ?sb1) = Some m"
    then have "m \<in> set (messages ?sb1)" by (rule find_mem)
    with 1 have "set (activeUpvoteIds m) \<inter> set (activeDownvoteIds m) = {}"
      unfolding votesDisjoint_def by blast
    then show "set (activeUpvoteIds (m\<lparr>activeDownvoteIds := remove1 r (activeDownvoteIds m)\<rparr>))
        \<inter> set (activeDownvoteIds (m\<lparr>activeDownvoteIds := remove1 r (activeDownvoteIds m)\<rparr>)) = {}"
      using set_remove1_subset[of r "activeDownvoteIds m"] by auto
  qed
  then show ?thesis
    by (simp add: unvoted_def)
qed

lemma votesDisjoint_remove_first:
  "votesDisjoint sb \<Longrightarrow> votesDisjoint (sb\<lparr>messages := remove_first P (messages sb)\<rparr>)"
  using set_remove_first[of P "messages sb"] by (auto simp: votesDisjoint_def)

lemma votesDisjoint_pushed:
  assumes "votesDisjoint sb"
    and "\<And>m. find P (messages sb) = Some m \<Longrightarrow> rid \<notin> set (votesOf (\<not> up) m)"
  shows "votesDisjoint (sb\<lparr>messages := update_first P (pushVote up rid) (messages sb)\<rparr>)"
proof (rule votesDisjoint_update_first[OF assms(1)])
  fix m assume f: "find P (messages sb) = Some m"
  then have "m \<in> set (messages sb)" by (rule find_mem)
  with assms(1) have "set (activeUpvoteIds m) \<inter> set (activeDownvoteIds m) = {}"
    by (simp add: votesDisjoint_def)
  with assms(2)[OF f]
  show "set (activeUpvoteIds (pushVote up rid m)) \<inter> set (activeDownvoteIds (pushVote up rid m)) = {}"
    by (auto simp: pushVote_def votesOf_def)
qed

lemma votesDisjoint_appended:
  "votesDisjoint sb \<Longrightarrow>
   votesDisjoint (sb\<lparr>messages := messages sb @ [newMessage env p up rid tg b s]\<rparr>)"
  by (auto simp: votesDisjoint_def newMessage_def pushVote_def)

lemma inv_loadRooms:
  "ledgerInvariant env st \<Longrightarrow>
   \<forall>(r, room) \<in> set rs. case room of None \<Rightarrow> False | Some sb \<Rightarrow> votesDisjoint sb \<Longrightarrow>
   ledgerInvariant env (snd (loadRooms env rs st))"
proof (induction rs arbitrary: st)
  case Nil
  then show ?case by simp
next
  case (Cons a rs)
  from Cons.prems(2) obtain r sb where a: "a = (r, Some sb)" and "votesDisjoint sb"
    and rest: "\<forall>(r, room) \<in> set rs. case room of None \<Rightarrow> False | Some sb \<Rightarrow> votesDisjoint sb"
    by (cases a) (auto split: option.splits)
  let ?st = "(emit (recalculating r) (st\<lparr>byRoom := AList.update r sb (byRoom st)\<rparr>))
          \<lparr>byRoomCached := AList.update r (rankingView env r (domain st) sb) (byRoomCached st)\<rparr>"
  from Cons.prems(1) \<open>votesDisjoint sb\<close> have "ledgerInvariant env ?st"
    by (elim inv_set) simp_all
  from Cons.IH[OF this rest] show ?case
    by (simp add: a loadRooms_step del: loadRooms.simps)
qed

lemma inv_load:
  assumes "ledgerInvariant env st" and "snapshotDisjoint env st"
  shows "ledgerInvariant env (snd (load env st))"
proof (cases rule: load_cases[of env "readFile (files st) (path st)"])
  case 1
  with assms(1) show ?thesis
    by (simp add: load_def loadFrom_unusable)
next
  case (2 data)
  with assms(1) show ?thesis
    by (simp add: load_def loadFrom_null)
next
  case (3 data rs)
  with assms(2)
  have "\<forall>(r, room) \<in> set rs. case room of None \<Rightarrow> False | Some sb \<Rightarrow> votesDisjoint sb"
    by (simp add: snapshotDisjoint_def)
  with assms(1) have "ledgerInvariant env (snd (loadRooms env rs (emit LockAcquire st)))"
    by (intro inv_loadRooms) simp_all
  then show ?thesis
    by (simp add: load_def loadFrom_current[OF 3])
qed

lemma inv_tryAddReaction:
  assumes i: "ledgerInvariant env st" and fresh: "reactionFresh env roomId event st"
  shows "ledgerInvariant env (snd (tryAddReaction env getEvent getUserProfile roomId event st))"
proof (cases "reactionFilter env roomId event")
  case None
  with i show ?thesis by (simp add: tryAddReaction_filtered)
next
  case (Some ut)
  then obtain up tg where f: "reactionFilter env roomId event = Some (up, tg)"
    by (cases ut) auto
  show ?thesis
  proof (cases "find (\<lambda>m. eventId m = tg) (messages (roomOf st roomId))")
    case (Some m)
    have "votesDisjoint ((roomOf st roomId)\<lparr>messages := update_first (\<lambda>m. eventId m = tg)
             (pushVote up (event_id event)) (messages (roomOf st roomId))\<rparr>)"
      using fresh f by (intro votesDisjoint_pushed inv_room[OF i]) (simp add: reactionFresh_def)
    with i show ?thesis
      by (simp add: tryAddReaction_tracked[OF f Some] inv_commit)
  next
    case None
    show ?thesis
    proof (cases "usableTarget getEvent")
      case N: None
      from i show ?thesis
        by (simp add: tryAddReaction_dropped[OF f None N] inv_ensure)
    next
      case (Some bs)
      then obtain b s where u: "usableTarget getEvent = Some (b, s)" by (cases bs) auto
      from i show ?thesis
        by (simp add: tryAddReaction_new[OF f None u] inv_commit votesDisjoint_appended inv_room)
    qed
  qed
qed

lemma inv_tryRemoveReaction:
  "ledgerInvariant env st \<Longrightarrow> ledgerInvariant env (snd (tryRemoveReaction env roomId event st))"
  by (auto simp: tryRemoveReaction_eq inv_commit votesDisjoint_unvoted inv_room'
        split: option.splits)

lemma inv_tryRemoveMessage:
  "ledgerInvariant env st \<Longrightarrow> ledgerInvariant env (snd (tryRemoveMessage env roomId event st))"
  by (auto simp: tryRemoveMessage_eq inv_commit votesDisjoint_remove_first inv_room'
        split: option.splits)

text \<open>
  C6, as the code has it. Every operation (\<open>resetScoreboard\<close>, \<open>showQACountdown\<close>,
  \<open>tryAddReaction\<close>, \<open>tryRemoveReaction\<close>, \<open>tryRemoveMessage\<close>, \<open>load\<close>) preserves the
  invariant of the ledger, provided a recorded reaction's id is not already among the
  opposite votes of its target (an event id belongs to one reaction) and the rooms of a
  loaded snapshot are scoreboards that keep the two vote lists of each of their messages
  apart. So afterwards every tracked room with messages has a view, the view lists the
  display records of the room's messages, sorted, and no id stands in both lists of a
  message. The score of each record is the length of the list of upvote ids less the
  length of the list of downvote ids of its message, an id counting as often as it
  stands in the list; where neither list repeats an id, that is the score in the words of
  the specification, the difference of the sizes of the two sets.
\<close>

theorem invariant_preserved:
  assumes "ledgerInvariant env st" and "admissible env op st"
  shows "ledgerInvariant env (snd (perform env op st)) \<and>
    (\<forall>r sb. map_of (byRoom (snd (perform env op st))) r = Some sb \<and> messages sb \<noteq> [] \<longrightarrow>
       (\<exists>view. getScoreboard (snd (perform env op st)) r = Some view \<and>
          ordered view = array_sort (\<lambda>a b. upvotes b - upvotes a)
            (map (displayRecord env r (domain (snd (perform env op st)))) (messages sb))) \<and>
       (\<forall>m \<in> set (messages sb).
          upvotes (displayRecord env r (domain (snd (perform env op st))) m)
            = int (length (activeUpvoteIds m)) - int (length (activeDownvoteIds m)) \<and>
          (distinct (activeUpvoteIds m) \<and> distinct (activeDownvoteIds m) \<longrightarrow>
             upvotes (displayRecord env r (domain (snd (perform env op st))) m) = setScore m) \<and>
          set (activeUpvoteIds m) \<inter> set (activeDownvoteIds m) = {}))"
proof -
  have inv: "ledgerInvariant env (snd (perform env op st))"
  proof (cases op)
    case (ResetRoom r)
    with assms(1) show ?thesis by (simp add: resetScoreboard_eq inv_commit)
  next
    case (SetCountdown r t)
    with assms(1) show ?thesis by (simp add: showQACountdown_stored inv_commit inv_room)
  next
    case (RecordReaction ge gp r ev)
    with assms show ?thesis by (simp add: inv_tryAddReaction)
  next
    case (RemoveReaction r ev)
    with assms(1) show ?thesis by (simp add: inv_tryRemoveReaction)
  next
    case (RemoveMessage r ev)
    with assms(1) show ?thesis by (simp add: inv_tryRemoveMessage)
  next
    case Load
    with assms show ?thesis by (simp add: inv_load)
  qed
  have shown: "(\<exists>view. getScoreboard st' r = Some view \<and>
          ordered view = array_sort (\<lambda>a b. upvotes b - upvotes a)
            (map (displayRecord env r (domain st')) (messages sb))) \<and>
       (\<forall>m \<in> set (messages sb).
          upvotes (displayRecord env r (domain st') m)
            = int (length (activeUpvoteIds m)) - int (length (activeDownvoteIds m)) \<and>
          (distinct (activeUpvoteIds m) \<and> distinct (activeDownvoteIds m) \<longrightarrow>
             upvotes (displayRecord env r (domain st') m) = setScore m) \<and>
          set (activeUpvoteIds m) \<inter> set (activeDownvoteIds m) = {})"
    if "ledgerInvariant env st'" "map_of (byRoom st') r = Some sb" "messages sb \<noteq> []"
    for st' r sb
  proof -
    from that(1,2) have "votesDisjoint sb"
      and "getScoreboard st' r = Some (rankingView env r (domain st') sb) \<or> sb = emptyRoom"
      unfolding ledgerInvariant_def by blast+
    with that(3) have "votesDisjoint sb"
      and "getScoreboard st' r = Some (rankingView env r (domain st') sb)"
      by (auto simp: emptyRoom_def)
    then show ?thesis
      by (simp add: votesDisjoint_def rankingView_def displayRecord_def setScore_def distinct_card)
  qed
  from inv shown[OF inv] show ?thesis
    by blast
qed

text \<open>
  The sample upvote, delivered a second time: the operation is admissible and the
  invariant holds afterwards, the message has the one id twice in its list of upvotes, and
  the score shown is 2, where the sizes of the two sets give 1. And \<open>load\<close> of a snapshot
  whose message has one id in both lists: it returns, and the id stands in both lists of
  the tracked message.
\<close>

theorem replay_and_snapshot_counterexample:
  "ledgerInvariant sampleEnv votedOnce \<and>
   admissible sampleEnv
     (RecordReaction (plainText ''Hi'') Rejected sampleRoomId (reaction ''$u1'' thumbsUp ''$m1'')) votedOnce \<and>
   votedTwice = snd (perform sampleEnv
     (RecordReaction (plainText ''Hi'') Rejected sampleRoomId (reaction ''$u1'' thumbsUp ''$m1'')) votedOnce) \<and>
   ledgerInvariant sampleEnv votedTwice \<and>
   tally votedTwice sampleRoomId = [(''$m1'', [''$u1'', ''$u1''], [])] \<and>
   shownScores votedTwice sampleRoomId = Some [2] \<and>
   map setScore (messages (roomOf votedTwice sampleRoomId)) = [1] \<and>
   ledgerInvariant sampleEnv (onDisk clashText) \<and>
   fst (perform sampleEnv Load (onDisk clashText)) = Returned \<and>
   tally (snd (perform sampleEnv Load (onDisk clashText))) sampleRoomId
     = [(''$m1'', [''$x1''], [''$x1''])] \<and>
   \<not> ledgerInvariant sampleEnv (snd (perform sampleEnv Load (onDisk clashText)))"
proof -
  let ?m = "\<lparr>eventId = ''$m1'', msgText = ''Hi'', senderId = ''@alice:example.org'',
             senderName = None, senderHttpUrl = None, activeUpvoteIds = [''$u1''],
             activeDownvoteIds = []\<rparr>"
  let ?ev = "reaction ''$u1'' thumbsUp ''$m1''"
  have i0: "ledgerInvariant sampleEnv freshBoard"
    by (simp add: ledgerInvariant_def freshBoard_def getScoreboard_def)
  have f0: "reactionFresh sampleEnv sampleRoomId ?ev freshBoard"
    by (simp add: reactionFresh_def sample_filter roomOf_freshBoard)
  have i1: "ledgerInvariant sampleEnv votedOnce"
    unfolding votedOnce_def by (rule inv_tryAddReaction[OF i0 f0])
  have r: "roomOf votedOnce sampleRoomId = \<lparr>qaStartTime = None, messages = [?m]\<rparr>"
    by (simp add: roomOf_def votedOnce_room)
  have t: "find (\<lambda>m. eventId m = ''$m1'') (messages (roomOf votedOnce sampleRoomId)) = Some ?m"
    by (simp add: r)
  have f: "reactionFilter sampleEnv sampleRoomId ?ev = Some (True, ''$m1'')"
    by (rule sample_filter)
  have a: "admissible sampleEnv (RecordReaction (plainText ''Hi'') Rejected sampleRoomId ?ev) votedOnce"
    by (simp add: reactionFresh_def f t votesOf_def)
  have v: "votedTwice = snd (perform sampleEnv
     (RecordReaction (plainText ''Hi'') Rejected sampleRoomId ?ev) votedOnce)"
    by (simp add: votedTwice_def)
  have i2: "ledgerInvariant sampleEnv votedTwice"
    unfolding votedTwice_def using a by (intro inv_tryAddReaction[OF i1]) simp
  have r2: "roomOf votedTwice sampleRoomId = \<lparr>qaStartTime = None, messages =
      [?m\<lparr>activeUpvoteIds := [''$u1'', ''$u1'']\<rparr>]\<rparr>"
    by (simp add: roomOf_def votedTwice_room)
  have s2: "shownScores votedTwice sampleRoomId = Some [2]"
    unfolding votedTwice_def tryAddReaction_tracked[OF f t] shownScores_def
    by (simp add: getScoreboard_def update_conv' rankingView_sort_key r pushVote_def displayRecord_def)
  have c2: "tally votedTwice sampleRoomId = [(''$m1'', [''$u1'', ''$u1''], [])]"
    "map setScore (messages (roomOf votedTwice sampleRoomId)) = [1]"
    by (simp_all add: tally_def r2 setScore_def)
  let ?room = "\<lparr>qaStartTime = None, messages = [question ''$m1'' [''$x1''] [''$x1'']]\<rparr>"
  have p: "parse sampleEnv clashText = Some (JsonValue (Some JSON_FORMAT_VERSION) [(sampleRoomId, Some ?room)])"
    by (simp add: sampleParse_texts JSON_FORMAT_VERSION_def)
  have i3: "ledgerInvariant sampleEnv (onDisk clashText)"
    by (simp add: ledgerInvariant_def onDisk_def freshBoard_def getScoreboard_def)
  have "fst (loadRooms sampleEnv [(sampleRoomId, Some ?room)] (emit LockAcquire (onDisk clashText)))
      = Returned"
    unfolding loadRooms_outcome by simp
  then have l: "perform sampleEnv Load (onDisk clashText)
      = (Returned, emit LockRelease (snd (loadRooms sampleEnv [(sampleRoomId, Some ?room)]
            (emit LockAcquire (onDisk clashText)))))"
    by (simp add: load_def readFile_onDisk loadFrom_current[OF _ p] del: loadRooms.simps)
  have m3: "map_of (byRoom (snd (perform sampleEnv Load (onDisk clashText)))) sampleRoomId = Some ?room"
    unfolding l by (simp add: loadRooms_step update_conv' del: loadRooms.simps(3))
  then have t3: "tally (snd (perform sampleEnv Load (onDisk clashText))) sampleRoomId
     = [(''$m1'', [''$x1''], [''$x1''])]"
    by (simp add: tally_def roomOf_def question_def)
  have "\<not> votesDisjoint ?room"
    by (simp add: votesDisjoint_def question_def)
  with m3 have n3: "\<not> ledgerInvariant sampleEnv (snd (perform sampleEnv Load (onDisk clashText)))"
    unfolding ledgerInvariant_def by blast
  have o3: "fst (perform sampleEnv Load (onDisk clashText)) = Returned"
    unfolding l by simp
  from i1 a v i2 c2 s2 i3 o3 t3 n3 show ?thesis
    by (intro conjI)
qed

text \<open>
  Why the reaction's id must not be among the opposite votes of its target: were the id
  of the sample upvote delivered again as a downvote, which the uniqueness of event ids
  excludes, it would stand in both lists of the message.
\<close>

theorem shared_id_in_both_lists:
  "ledgerInvariant sampleEnv votedOnce \<and>
   map (\<lambda>m. (activeUpvoteIds m, activeDownvoteIds m))
     (messages (roomOf (snd (tryAddReaction sampleEnv Rejected Rejected sampleRoomId
                               (reaction ''$u1'' thumbsDown ''$m1'') votedOnce)) sampleRoomId))
     = [([''$u1''], [''$u1''])] \<and>
   \<not> ledgerInvariant sampleEnv
       (snd (tryAddReaction sampleEnv Rejected Rejected sampleRoomId
               (reaction ''$u1'' thumbsDown ''$m1'') votedOnce))"
proof -
  let ?m = "\<lparr>eventId = ''$m1'', msgText = ''Hi'', senderId = ''@alice:example.org'',
             senderName = None, senderHttpUrl = None, activeUpvoteIds = [''$u1''],
             activeDownvoteIds = []\<rparr>"
  let ?st = "snd (tryAddReaction sampleEnv Rejected Rejected sampleRoomId
               (reaction ''$u1'' thumbsDown ''$m1'') votedOnce)"
  have i0: "ledgerInvariant sampleEnv freshBoard"
    by (simp add: ledgerInvariant_def freshBoard_def getScoreboard_def)
  have f0: "reactionFresh sampleEnv sampleRoomId (reaction ''$u1'' thumbsUp ''$m1'') freshBoard"
    by (simp add: reactionFresh_def sample_filter roomOf_freshBoard)
  have i1: "ledgerInvariant sampleEnv votedOnce"
    unfolding votedOnce_def by (rule inv_tryAddReaction[OF i0 f0])
  have r: "roomOf votedOnce sampleRoomId = \<lparr>qaStartTime = None, messages = [?m]\<rparr>"
    by (simp add: roomOf_def votedOnce_room)
  have t: "find (\<lambda>m. eventId m = ''$m1'') (messages (roomOf votedOnce sampleRoomId)) = Some ?m"
    by (simp add: r)
  have f: "reactionFilter sampleEnv sampleRoomId (reaction ''$u1'' thumbsDown ''$m1'') = Some (False, ''$m1'')"
    by (rule sample_filter)
  have r2: "roomOf ?st sampleRoomId = \<lparr>qaStartTime = None, messages =
      [?m\<lparr>activeDownvoteIds := [''$u1'']\<rparr>]\<rparr>"
    unfolding tryAddReaction_tracked[OF f t] by (simp add: r pushVote_def)
  have m2: "map_of (byRoom ?st) sampleRoomId = Some \<lparr>qaStartTime = None, messages =
      [?m\<lparr>activeDownvoteIds := [''$u1'']\<rparr>]\<rparr>"
    unfolding tryAddReaction_tracked[OF f t] by (simp add: r pushVote_def update_conv')
  have "\<not> votesDisjoint \<lparr>qaStartTime = None, messages = [?m\<lparr>activeDownvoteIds := [''$u1'']\<rparr>]\<rparr>"
    by (simp add: votesDisjoint_def)
  with m2 have "\<not> ledgerInvariant sampleEnv ?st"
    unfolding ledgerInvariant_def by blast
  with i1 r2 show ?thesis
    by simp
qed

text \<open>After the sample upvote, a downvote with an id of its own: the score shown is 0.\<close>

theorem invariant_preserved_witness:
  "ledgerInvariant sampleEnv votedOnce \<and>
   admissible sampleEnv
     (RecordReaction Rejected Rejected sampleRoomId (reaction ''$d1'' thumbsDown ''$m1'')) votedOnce \<and>
   ledgerInvariant sampleEnv
     (snd (perform sampleEnv
        (RecordReaction Rejected Rejected sampleRoomId (reaction ''$d1'' thumbsDown ''$m1'')) votedOnce)) \<and>
   map_option (map upvotes \<circ> ordered)
     (getScoreboard (snd (perform sampleEnv
        (RecordReaction Rejected Rejected sampleRoomId (reaction ''$d1'' thumbsDown ''$m1'')) votedOnce))
        sampleRoomId) = Some [0]"
proof -
  let ?m = "\<lparr>eventId = ''$m1'', msgText = ''Hi'', senderId = ''@alice:example.org'',
             senderName = None, senderHttpUrl = None, activeUpvoteIds = [''$u1''],
             activeDownvoteIds = []\<rparr>"
  have i0: "ledgerInvariant sampleEnv freshBoard"
    by (simp add: ledgerInvariant_def freshBoard_def getScoreboard_def)
  have f0: "reactionFresh sampleEnv sampleRoomId (reaction ''$u1'' thumbsUp ''$m1'') freshBoard"
    by (simp add: reactionFresh_def sample_filter roomOf_freshBoard)
  have i1: "ledgerInvariant sampleEnv votedOnce"
    unfolding votedOnce_def by (rule inv_tryAddReaction[OF i0 f0])
  have r: "roomOf votedOnce sampleRoomId = \<lparr>qaStartTime = None, messages = [?m]\<rparr>"
    by (simp add: roomOf_def votedOnce_room)
  have t: "find (\<lambda>m. eventId m = ''$m1'') (messages (roomOf votedOnce sampleRoomId)) = Some ?m"
    by (simp add: r)
  have f: "reactionFilter sampleEnv sampleRoomId (reaction ''$d1'' thumbsDown ''$m1'') = Some (False, ''$m1'')"
    by (rule sample_filter)
  have a: "admissible sampleEnv
     (RecordReaction Rejected Rejected sampleRoomId (reaction ''$d1'' thumbsDown ''$m1'')) votedOnce"
    by (simp add: reactionFresh_def f t votesOf_def)
  have v: "map_option (map upvotes \<circ> ordered)
     (getScoreboard (snd (perform sampleEnv
        (RecordReaction Rejected Rejected sampleRoomId (reaction ''$d1'' thumbsDown ''$m1'')) votedOnce))
        sampleRoomId) = Some [0]"
    unfolding perform.simps tryAddReaction_tracked[OF f t]
    by (simp add: getScoreboard_def update_conv' rankingView_sort_key r pushVote_def displayRecord_def)
  from invariant_preserved[OF i1 a] i1 a v show ?thesis
    by simp
qed

subsection \<open>The lock, and the scenarios of the specification\<close>

lemma lockAfter_append:
  "lockAfter (xs @ ys) held = (case lockAfter xs held of None \<Rightarrow> None | Some h \<Rightarrow> lockAfter ys h)"
  by (induction xs held rule: lockAfter.induct) auto

lemma lockAfter_files: "lockAfter (map FileOp ops) held = Some held"
  by (induction ops) auto

lemma lockAfter_saveTrace: "lockAfter (saveTrace env st) False = Some False"
  by (simp add: saveTrace_def lockAfter_append lockAfter_files)

lemma trace_committed:
  "trace (committed env r sb (stored r sb st))
     = trace st @ [LockAcquire, recalculating r, LockRelease] @ saveTrace env (stored r sb st)"
  by (simp add: committed_def)

lemma trace_loadRooms:
  "\<exists>infos. trace (snd (loadRooms env rs st)) = trace st @ infos \<and> lockAfter infos True = Some True"
proof (induction rs arbitrary: st)
  case Nil
  show ?case by simp
next
  case (Cons a rs)
  obtain r room where a: "a = (r, room)" by (cases a)
  show ?case
  proof (cases room)
    case None
    have "trace (snd (loadRooms env (a # rs) st)) = trace st @ [recalculating r]"
      by (simp add: a None)
    moreover have "lockAfter [recalculating r] True = Some True"
      by (simp add: recalculating_def)
    ultimately show ?thesis by blast
  next
    case (Some sb)
    let ?st = "(emit (recalculating r) (st\<lparr>byRoom := AList.update r sb (byRoom st)\<rparr>))
            \<lparr>byRoomCached := AList.update r (rankingView env r (domain st) sb) (byRoomCached st)\<rparr>"
    from Cons.IH[of ?st] obtain infos where
      i: "trace (snd (loadRooms env rs ?st)) = trace ?st @ infos" "lockAfter infos True = Some True"
      by blast
    have "trace (snd (loadRooms env (a # rs) st)) = trace st @ (recalculating r # infos)"
      using i(1) by (simp add: a Some loadRooms_step del: loadRooms.simps)
    moreover have "lockAfter (recalculating r # infos) True = Some True"
      using i(2) by (simp add: recalculating_def)
    ultimately show ?thesis by blast
  qed
qed

text \<open>
  Every operation extends the trace by a part that starts and ends with the lock free,
  takes it only when it is free and releases it only when it is held: no path, a throw
  included, leaves the lock held.
\<close>

theorem lock_released:
  "\<exists>ext. trace (snd (perform env op st)) = trace st @ ext \<and> lockAfter ext False = Some False"
proof (cases op)
  case (ResetRoom r)
  then show ?thesis
    by (simp add: resetScoreboard_eq trace_committed recalculating_def lockAfter_saveTrace)
next
  case (SetCountdown r t)
  then show ?thesis
    by (simp add: showQACountdown_stored trace_committed recalculating_def lockAfter_saveTrace)
next
  case (RecordReaction ge gp r ev)
  show ?thesis
  proof (cases "reactionFilter env r ev")
    case None
    with RecordReaction show ?thesis by (simp add: tryAddReaction_filtered)
  next
    case (Some ut)
    then obtain up tg where f: "reactionFilter env r ev = Some (up, tg)" by (cases ut) auto
    show ?thesis
    proof (cases "find (\<lambda>m. eventId m = tg) (messages (roomOf st r))")
      case (Some m)
      with RecordReaction show ?thesis
        by (simp add: tryAddReaction_tracked[OF f Some] trace_committed recalculating_def lockAfter_saveTrace)
    next
      case None
      show ?thesis
      proof (cases "usableTarget ge")
        case N: None
        with RecordReaction show ?thesis
          by (simp add: tryAddReaction_dropped[OF f None N])
      next
        case (Some bs)
        then obtain b s where u: "usableTarget ge = Some (b, s)" by (cases bs) auto
        with RecordReaction show ?thesis
          by (simp add: tryAddReaction_new[OF f None u] trace_committed recalculating_def lockAfter_saveTrace)
      qed
    qed
  qed
next
  case (RemoveReaction r ev)
  then show ?thesis
    by (auto simp: tryRemoveReaction_eq trace_committed recalculating_def lockAfter_saveTrace split: option.splits)
next
  case (RemoveMessage r ev)
  then show ?thesis
    by (auto simp: tryRemoveMessage_eq trace_committed recalculating_def lockAfter_saveTrace split: option.splits)
next
  case Load
  show ?thesis
  proof (cases rule: load_cases[of env "readFile (files st) (path st)"])
    case 1
    with Load show ?thesis
      by (simp add: load_def loadFrom_unusable)
  next
    case (2 data)
    with Load show ?thesis
      by (simp add: load_def loadFrom_null)
  next
    case (3 data rs)
    from trace_loadRooms[of env rs "emit LockAcquire st"] obtain infos where
      i: "trace (snd (loadRooms env rs (emit LockAcquire st))) = trace st @ LockAcquire # infos"
        "lockAfter infos True = Some True"
      by auto
    have "trace (snd (load env st)) = trace st @ (LockAcquire # infos @ [LockRelease])"
      by (simp add: load_def loadFrom_current[OF 3] i(1))
    moreover have "lockAfter (LockAcquire # infos @ [LockRelease]) False = Some False"
      by (simp add: lockAfter_append i(2))
    ultimately show ?thesis using Load by (simp del: lockAfter.simps)
  qed
qed














text \<open>
  Scenario E: after a countdown and then a reset of the room, the room has no countdown
  and no messages, and neither has its view.
\<close>

theorem countdown_then_reset:
  "map_of (byRoom (snd (resetScoreboard env roomId (snd (showQACountdown env roomId t st))))) roomId
     = Some \<lparr>qaStartTime = None, messages = []\<rparr> \<and>
   getScoreboard (snd (resetScoreboard env roomId (snd (showQACountdown env roomId t st)))) roomId
     = Some \<lparr>cachedQaStartTime = None, ordered = []\<rparr>"
  by (simp add: resetScoreboard_eq update_conv' getScoreboard_def rankingView_sort_key emptyRoom_def)

lemma sample_redacts: "redactsOf sampleEnv sampleRoomId (redaction r) = (if r = [] then None else Some r)"
  by (simp add: redactsOf_def redaction_def sampleEnv_def)

lemma ev_type_samples [simp]:
  "ev_type (reaction rid emoji tg) = ''m.reaction''" "ev_type (redaction r) = ''m.room.redaction''"
  by (simp_all add: reaction_def redaction_def)

lemma scores_rankingView:
  "map upvotes (ordered (rankingView env r d \<lparr>qaStartTime = q, messages = [hi ups downs]\<rparr>))
     = [int (length ups) - int (length downs)]"
  by (simp add: rankingView_sort_key displayRecord_def hi_def)

lemma tracked_step:
  assumes "map_of (byRoom st) sampleRoomId = Some \<lparr>qaStartTime = None, messages = [hi ups downs]\<rparr>"
    and "emoji = thumbsUp \<or> emoji = thumbsDown"
  shows "map_of (byRoom (snd (onRoomEvent sampleEnv ge gp sampleRoomId (reaction rid emoji ''$m1'') st))) sampleRoomId
      = Some \<lparr>qaStartTime = None,
              messages = [if emoji = thumbsUp then hi (ups @ [rid]) downs else hi ups (downs @ [rid])]\<rparr> \<and>
    shownScores (snd (onRoomEvent sampleEnv ge gp sampleRoomId (reaction rid emoji ''$m1'') st)) sampleRoomId
      = Some [if emoji = thumbsUp then int (length ups) + 1 - int (length downs)
              else int (length ups) - (int (length downs) + 1)]"
proof -
  have f: "reactionFilter sampleEnv sampleRoomId (reaction rid emoji ''$m1'') = Some (emoji = thumbsUp, ''$m1'')"
    using assms(2) by (auto simp: sample_filter) (simp add: thumbsUp_def thumbsDown_def)
  have r: "roomOf st sampleRoomId = \<lparr>qaStartTime = None, messages = [hi ups downs]\<rparr>"
    using assms(1) by (simp add: roomOf_def)
  have t: "find (\<lambda>m. eventId m = ''$m1'') (messages (roomOf st sampleRoomId)) = Some (hi ups downs)"
    by (simp add: r hi_def)
  show ?thesis
    unfolding onRoomEvent_def ev_type_samples if_True tryAddReaction_tracked[OF f t]
    by (simp add: r update_conv' shownScores_def getScoreboard_def pushVote_def hi_def
          rankingView_sort_key displayRecord_def)
qed

lemma votedOnce_lookup:
  "map_of (byRoom votedOnce) sampleRoomId = Some \<lparr>qaStartTime = None, messages = [hi [''$u1''] []]\<rparr>"
  by (simp add: votedOnce_room hi_def)

lemma scenarioA_facts:
  "map_of (byRoom scenarioA) sampleRoomId
     = Some \<lparr>qaStartTime = None, messages = [hi [''$u1'', ''$u2''] [''$d1'']]\<rparr>"
  "shownScores scenarioA sampleRoomId = Some [1]"
proof -
  let ?s1 = "snd (onRoomEvent sampleEnv Rejected Rejected sampleRoomId (reaction ''$u2'' thumbsUp ''$m1'')
          votedOnce)"
  from tracked_step[OF votedOnce_lookup, of thumbsUp Rejected Rejected "''$u2''"]
  have 1: "map_of (byRoom ?s1) sampleRoomId
      = Some \<lparr>qaStartTime = None, messages = [hi [''$u1'', ''$u2''] []]\<rparr>"
    by simp
  have d: "thumbsDown \<noteq> thumbsUp"
    by (simp add: thumbsUp_def thumbsDown_def)
  from tracked_step[OF 1, of thumbsDown Rejected Rejected "''$d1''"] d
  show "map_of (byRoom scenarioA) sampleRoomId
     = Some \<lparr>qaStartTime = None, messages = [hi [''$u1'', ''$u2''] [''$d1'']]\<rparr>"
    "shownScores scenarioA sampleRoomId = Some [1]"
    by (simp_all add: scenarioA_def)
qed

lemma scenarioB_facts:
  "map_of (byRoom scenarioB) sampleRoomId
     = Some \<lparr>qaStartTime = None, messages = [hi [''$u1''] [''$d1'']]\<rparr>"
  "shownScores scenarioB sampleRoomId = Some [0]"
  unfolding scenarioB_def onRoomEvent_def ev_type_samples
  by (simp_all add: tryRemoveReaction_eq tryRemoveMessage_eq sample_redacts scenarioA_facts(1)
        unvoted_def hi_def update_conv' shownScores_def getScoreboard_def rankingView_sort_key
        displayRecord_def)

lemma scenarioC_facts:
  "map_of (byRoom scenarioC) sampleRoomId = Some \<lparr>qaStartTime = None, messages = []\<rparr>"
  "shownScores scenarioC sampleRoomId = Some []"
  unfolding scenarioC_def onRoomEvent_def ev_type_samples
  by (simp_all add: tryRemoveReaction_eq tryRemoveMessage_eq sample_redacts scenarioB_facts(1)
        hi_def update_conv' shownScores_def getScoreboard_def rankingView_sort_key)

text \<open>
  Scenarios A to C: two upvotes and a downvote give the score 1; the redaction of one
  upvote gives 0; the redaction of the message empties the room and its ranking.
\<close>

theorem scenarios_A_B_C:
  "tally scenarioA sampleRoomId = [(''$m1'', [''$u1'', ''$u2''], [''$d1''])] \<and>
   shownScores scenarioA sampleRoomId = Some [1] \<and>
   tally scenarioB sampleRoomId = [(''$m1'', [''$u1''], [''$d1''])] \<and>
   shownScores scenarioB sampleRoomId = Some [0] \<and>
   tally scenarioC sampleRoomId = [] \<and>
   shownScores scenarioC sampleRoomId = Some []"
  by (simp add: tally_def roomOf_def scenarioA_facts scenarioB_facts scenarioC_facts hi_def)

text \<open>
  The redaction of an id that is in no vote list of the room changes no room, no view and
  no file.
\<close>

theorem absent_removal_noop:
  "(\<forall>sb. map_of (byRoom st) roomId = Some sb \<longrightarrow>
      (\<forall>m \<in> set (messages sb). r \<notin> set (activeUpvoteIds m) \<and> r \<notin> set (activeDownvoteIds m))) \<longrightarrow>
   redacts event = Some r \<longrightarrow>
   fst (tryRemoveReaction env roomId event st) = Returned \<and>
   byRoom (snd (tryRemoveReaction env roomId event st)) = byRoom st \<and>
   byRoomCached (snd (tryRemoveReaction env roomId event st)) = byRoomCached st \<and>
   files (snd (tryRemoveReaction env roomId event st)) = files st"
proof -
  have "find P xs = None" if "\<forall>m \<in> set xs. \<not> P m" for P and xs :: "RoomMessage list"
    using that by (induction xs) auto
  then show ?thesis
    by (auto simp: tryRemoveReaction_eq redactsOf_def split: option.splits)
qed

text \<open>An id that nobody voted with, redacted in the first of the two rooms.\<close>

theorem absent_removal_noop_witness:
  "redacts (redaction ''$zz'') = Some ''$zz'' \<and>
   byRoom (snd (tryRemoveReaction sampleEnv sampleRoomId (redaction ''$zz'') twoRooms)) = byRoom twoRooms \<and>
   files (snd (tryRemoveReaction sampleEnv sampleRoomId (redaction ''$zz'') twoRooms)) = files twoRooms"
proof -
  have a: "\<forall>sb. map_of (byRoom twoRooms) sampleRoomId = Some sb \<longrightarrow>
      (\<forall>m \<in> set (messages sb). ''$zz'' \<notin> set (activeUpvoteIds m) \<and> ''$zz'' \<notin> set (activeDownvoteIds m))"
    by (simp add: twoRooms_def freshBoard_def scenarioD_room_def question_def)
  have b: "redacts (redaction ''$zz'') = Some ''$zz''"
    by (simp add: redaction_def)
  from absent_removal_noop[of twoRooms sampleRoomId "''$zz''" "redaction ''$zz''" sampleEnv] a b
  show ?thesis by blast
qed

end
